theory Spec2Isabelle
  imports Main
begin

section \<open>LoadBalancerManager.ts: the reverse-proxy controller\<close>

text \<open>
  A shallow embedding of \<^verbatim>\<open>src/user/system/LoadBalancerManager.ts\<close>. Objects are records,
  an optional or \<^verbatim>\<open>undefined\<close> value is an \<open>option\<close>, a rejected promise or a thrown
  exception is the \<open>Inl\<close> branch of a sum, and everything the class shares with the outside
  (the files on disk, the swarm, the pending reload requests) is an explicit state that
  each operation takes and returns. What lives outside this file of the repository is a
  parameter (\<^verbatim>\<open>CaptainConstants\<close>, the values of the data store, the certificate manager,
  \<^verbatim>\<open>ejs\<close>) or a small state machine of its own (the disk behind \<^verbatim>\<open>fs-extra\<close>, the swarm behind
  the Docker client).
\<close>

subsection \<open>Data model\<close>

text \<open>
  \<^verbatim>\<open>a || b\<close> on a string that may be \<^verbatim>\<open>undefined\<close>: the empty string and \<^verbatim>\<open>undefined\<close> are
  falsy.
\<close>

definition orElse :: "string option \<Rightarrow> string \<Rightarrow> string" where
  "orElse v d = (case v of None \<Rightarrow> d | Some s \<Rightarrow> if s \<noteq> [] then s else d)"

text \<open>
  The application definition as the data store hands it over (\<^verbatim>\<open>IAppDef\<close>; the declaration
  is not in this file). \<^verbatim>\<open>httpAuth?: { user: string, passwordHashed?: string }\<close>.
\<close>

record HttpAuth =
  user :: string
  passwordHashed :: "string option"

record ICustomDomain =
  publicDomain :: string
  hasSsl :: bool

record IAppDef =
  httpAuth :: "HttpAuth option"
  notExposeAsWebApp :: bool
  forceSsl :: bool
  websocketSupport :: bool
  customNginxConfig :: "string option"
  hasDefaultSubDomainSsl :: bool
  containerHttpPort :: "nat option"
  customDomain :: "ICustomDomain list option"

text \<open>
  \<^verbatim>\<open>IServerBlockDetails\<close>: one server block handed to the template. The fields that
  \<^verbatim>\<open>getAppsServerConfig\<close> may leave unset are options.
\<close>

record IServerBlockDetails =
  hasSsl :: bool
  publicDomain :: string
  localDomain :: string
  forceSsl :: bool
  websocketSupport :: bool
  containerHttpPort :: nat
  nginxConfigTemplate :: string
  httpBasicAuth :: string
  staticWebRoot :: "string option"
  customErrorPagesDirectory :: "string option"
  crtPath :: "string option"
  keyPath :: "string option"
  httpBasicAuthPath :: "string option"

text \<open>
  An entry of \<^verbatim>\<open>nginxConfig\<close>, of which \<^verbatim>\<open>captainConfig\<close> is read: a default and an optional
  custom value.
\<close>

record NginxConfigEntry =
  byDefault :: string
  customValue :: "string option"

text \<open>
  The data store, as the values its getters return. \<open>appDefinitions\<close> lists the entries of
  the object returned by \<^verbatim>\<open>getAppDefinitions()\<close> in the order of \<^verbatim>\<open>Object.keys\<close>.
\<close>

record DataStore =
  nameSpace :: string
  hasRootSsl :: bool
  rootDomain :: string
  hasRegistrySsl :: bool
  defaultAppNginxConfig :: string
  appDefinitions :: "(string \<times> IAppDef) list"
  serviceName :: "string \<Rightarrow> string"
  captainConfig :: NginxConfigEntry

text \<open>The constants of \<^verbatim>\<open>CaptainConstants\<close> that this file reads.\<close>

record CaptainConstants =
  perAppNginxConfigPathBase :: string
  rootNginxConfigPath :: string
  baseNginxConfigPath :: string
  nginxStaticRootDir :: string
  nginxDomainSpecificHtmlDir :: string
  nginxDefaultHtmlDir :: string
  letsEncryptEtcPathOnNginx :: string
  letsEncryptEtcPath :: string
  nginxSharedPathOnNginx :: string
  nginxSharedPathOnHost :: string
  captainStaticFilesDir :: string
  captainRootDirectoryGenerated :: string
  captainSubDomain :: string
  registrySubDomain :: string
  captainServiceName :: string
  captainServiceExposedPort :: nat
  nginxServiceName :: string
  nginxImageName :: string
  nginxPortNumber :: nat
  captainNetworkName :: string

subsection \<open>getAppsServerConfig\<close>

text \<open>
  The body of the \<^verbatim>\<open>forEach\<close> over the application names (lines 240 to 299): nothing for
  an application that is not exposed, otherwise the descriptor of the default sub-domain
  followed by one descriptor for each custom domain.
\<close>

definition appServerBlocks ::
  "DataStore \<Rightarrow> string \<Rightarrow> bool \<Rightarrow> string \<Rightarrow> string \<times> IAppDef \<Rightarrow> IServerBlockDetails list" where
  "appServerBlocks dataStore defaultAppNginxConfig' hasRootSsl' rootDomain' app =
    (let appName = fst app;
         webApp = snd app;
         httpBasicAuth' =
           (case IAppDef.httpAuth webApp of
              None \<Rightarrow> []
            | Some a \<Rightarrow>
                (case passwordHashed a of
                   None \<Rightarrow> []
                 | Some h \<Rightarrow> if h \<noteq> [] then user a @ '':'' @ h else []))
     in if notExposeAsWebApp webApp then []
        else
          (let localDomain' = serviceName dataStore appName;
               forceSsl' = IAppDef.forceSsl webApp;
               websocketSupport' = IAppDef.websocketSupport webApp;
               nginxConfigTemplate' = orElse (customNginxConfig webApp) defaultAppNginxConfig';
               httpPort =
                 (case IAppDef.containerHttpPort webApp of
                    None \<Rightarrow> 80
                  | Some p \<Rightarrow> if p = 0 then 80 else p);
               serverWithSubDomain =
                 \<lparr> hasSsl = (hasRootSsl' \<and> hasDefaultSubDomainSsl webApp),
                   publicDomain = appName @ ''.'' @ rootDomain',
                   localDomain = localDomain',
                   forceSsl = forceSsl',
                   websocketSupport = websocketSupport',
                   containerHttpPort = httpPort,
                   nginxConfigTemplate = nginxConfigTemplate',
                   httpBasicAuth = httpBasicAuth',
                   staticWebRoot = None,
                   customErrorPagesDirectory = None,
                   crtPath = None,
                   keyPath = None,
                   httpBasicAuthPath = None \<rparr>
           in serverWithSubDomain #
              (case customDomain webApp of
                 None \<Rightarrow> []
               | Some customDomainArray \<Rightarrow>
                   map (\<lambda>d.
                     \<lparr> hasSsl = ICustomDomain.hasSsl d,
                       publicDomain = ICustomDomain.publicDomain d,
                       localDomain = localDomain',
                       forceSsl = forceSsl',
                       websocketSupport = websocketSupport',
                       containerHttpPort = httpPort,
                       nginxConfigTemplate = nginxConfigTemplate',
                       httpBasicAuth = httpBasicAuth',
                       staticWebRoot = Some [],
                       customErrorPagesDirectory = Some [],
                       crtPath = None,
                       keyPath = None,
                       httpBasicAuthPath = None \<rparr>) customDomainArray)))"

text \<open>\<^verbatim>\<open>servers.push\<close> inside the \<^verbatim>\<open>forEach\<close>: the blocks are appended application by application.\<close>

definition getAppsServerConfig ::
  "DataStore \<Rightarrow> string \<Rightarrow> bool \<Rightarrow> string \<Rightarrow> IServerBlockDetails list" where
  "getAppsServerConfig dataStore defaultAppNginxConfig' hasRootSsl' rootDomain' =
     foldl (\<lambda>servers app.
              servers @ appServerBlocks dataStore defaultAppNginxConfig' hasRootSsl' rootDomain' app)
       [] (appDefinitions dataStore)"

definition getServerList :: "DataStore \<Rightarrow> IServerBlockDetails list" where
  "getServerList dataStore =
     getAppsServerConfig dataStore (defaultAppNginxConfig dataStore)
       (hasRootSsl dataStore) (rootDomain dataStore)"

subsection \<open>Collaborators\<close>

text \<open>
  The variables bound for the root template in \<^verbatim>\<open>createRootConfFile\<close>
  (\<^verbatim>\<open>fake\<close>, \<^verbatim>\<open>captain\<close>, \<^verbatim>\<open>registry\<close>).
\<close>

record RootBindings =
  fake_crtPath :: string
  fake_keyPath :: string
  captain_crtPath :: string
  captain_keyPath :: string
  captain_hasRootSsl :: bool
  captain_serviceName :: string
  captain_domain :: string
  captain_serviceExposedPort :: nat
  captain_defaultHtmlDir :: string
  captain_staticWebRoot :: string
  registry_crtPath :: string
  registry_keyPath :: string
  registry_hasRootSsl :: bool
  registry_domain :: string
  registry_staticWebRoot :: string

text \<open>
  The certificate manager and \<^verbatim>\<open>ejs.render\<close>. A render that throws is \<open>None\<close>. The two
  render functions are the one \<^verbatim>\<open>ejs.render\<close> at its two call sites, which bind different
  variables.
\<close>

record Collaborators =
  getCertRelativePathForDomain :: "string \<Rightarrow> string"
  getKeyRelativePathForDomain :: "string \<Rightarrow> string"
  renderServer :: "string \<Rightarrow> IServerBlockDetails \<Rightarrow> string option"
  renderRoot :: "string \<Rightarrow> RootBindings \<Rightarrow> string option"

definition CONTAINER_PATH_OF_CONFIG :: string where
  "CONTAINER_PATH_OF_CONFIG = ''/etc/nginx/conf.d''"

definition NGINX_CONTAINER_PATH_OF_FAKE_CERTS :: string where
  "NGINX_CONTAINER_PATH_OF_FAKE_CERTS = ''/etc/nginx/fake-certs''"

definition HOST_PATH_OF_FAKE_CERTS :: "CaptainConstants \<Rightarrow> string" where
  "HOST_PATH_OF_FAKE_CERTS cc = captainRootDirectoryGenerated cc @ ''/nginx/fake-certs-self-signed''"

definition getSslCertPath :: "CaptainConstants \<Rightarrow> Collaborators \<Rightarrow> string \<Rightarrow> string" where
  "getSslCertPath cc cm domainName =
     letsEncryptEtcPathOnNginx cc @ getCertRelativePathForDomain cm domainName"

definition getSslKeyPath :: "CaptainConstants \<Rightarrow> Collaborators \<Rightarrow> string \<Rightarrow> string" where
  "getSslKeyPath cc cm domainName =
     letsEncryptEtcPathOnNginx cc @ getKeyRelativePathForDomain cm domainName"

subsection \<open>The file system\<close>

text \<open>
  The calls of \<^verbatim>\<open>fs-extra\<close> that the reload makes. The disk is a map from paths to file
  contents. Any call can fail for a reason outside the program (permissions, a full disk):
  \<open>faults w n\<close> says that the \<open>n\<close>-th call made on this disk fails, and a failed call
  changes no file. \<open>trace\<close> records the calls in the order they are made.

  The credentials files are written by calls that run side by side. \<open>inFlight\<close> holds the
  writes (path and content) that have been requested, are not going to fail and have not
  ended yet. In which order writes in flight end is not the program's choice: \<open>pick w n\<close>
  decides the \<open>n\<close>-th such choice, and \<open>picks\<close> counts the choices made.
\<close>

datatype fs_call =
    OutputFile string string
  | Remove string
  | EnsureFile string
  | RenameSync string string

datatype error =
    FileSystemError fs_call
  | TemplateRenderError string

record world =
  files :: "string \<Rightarrow> string option"
  faults :: "nat \<Rightarrow> bool"
  clock :: nat
  trace :: "fs_call list"
  pick :: "nat \<Rightarrow> nat"
  picks :: nat
  inFlight :: "(string \<times> string) list"

text \<open>Sequencing of two steps of a promise chain: a rejection skips the steps after it.\<close>

definition thenE ::
  "('s \<Rightarrow> ('e + 'a) \<times> 's) \<Rightarrow> ('a \<Rightarrow> 's \<Rightarrow> ('e + 'b) \<times> 's) \<Rightarrow> 's \<Rightarrow> ('e + 'b) \<times> 's" where
  "thenE m f s = (case m s of (Inl e, s') \<Rightarrow> (Inl e, s') | (Inr x, s') \<Rightarrow> f x s')"

text \<open>
  What a call does to the files when nothing outside interferes: \<^verbatim>\<open>fs.outputFile\<close> writes
  the whole file, \<^verbatim>\<open>fs.remove\<close> is silent on a missing path, \<^verbatim>\<open>fs.ensureFile\<close> creates an
  empty file only if none is there, \<^verbatim>\<open>fs.renameSync\<close> throws (\<open>None\<close>) when its source is
  missing and replaces its destination otherwise.
\<close>

definition applyCall :: "fs_call \<Rightarrow> (string \<Rightarrow> string option) \<Rightarrow> (string \<Rightarrow> string option) option" where
  "applyCall c fs =
    (case c of
       OutputFile p d \<Rightarrow> Some (fs(p \<mapsto> d))
     | Remove p \<Rightarrow> Some (fs(p := None))
     | EnsureFile p \<Rightarrow> (case fs p of None \<Rightarrow> Some (fs(p \<mapsto> [])) | Some d \<Rightarrow> Some fs)
     | RenameSync p p' \<Rightarrow>
         (case fs p of None \<Rightarrow> None | Some d \<Rightarrow> Some ((fs(p := None))(p' \<mapsto> d))))"

definition fsCall :: "fs_call \<Rightarrow> world \<Rightarrow> (error + unit) \<times> world" where
  "fsCall c w =
    (let w' = w\<lparr>clock := Suc (clock w), trace := trace w @ [c]\<rparr>
     in if faults w (clock w) then (Inl (FileSystemError c), w')
        else
          (case applyCall c (files w) of
             None \<Rightarrow> (Inl (FileSystemError c), w')
           | Some fs' \<Rightarrow> (Inr (), w'\<lparr>files := fs'\<rparr>)))"

subsection \<open>The swap of a configuration file\<close>

text \<open>
  Lines 162 to 176 of \<^verbatim>\<open>consumeQueueIfAnyInNginxReloadQueue\<close> and lines 451 to 465 of
  \<^verbatim>\<open>createRootConfFile\<close> are the same five calls on \<^verbatim>\<open>FUTURE\<close>, \<^verbatim>\<open>BACKUP\<close> and \<^verbatim>\<open>CONFIG\<close>,
  which are the base path with \<^verbatim>\<open>.fut\<close>, \<^verbatim>\<open>.bak\<close> and \<^verbatim>\<open>.conf\<close> appended.
\<close>

definition FUTURE :: "string \<Rightarrow> string" where
  "FUTURE base = base @ ''.fut''"

definition BACKUP :: "string \<Rightarrow> string" where
  "BACKUP base = base @ ''.bak''"

definition CONFIG :: "string \<Rightarrow> string" where
  "CONFIG base = base @ ''.conf''"

definition swapCalls :: "string \<Rightarrow> string \<Rightarrow> fs_call list" where
  "swapCalls base content =
     [OutputFile (FUTURE base) content,
      Remove (BACKUP base),
      EnsureFile (CONFIG base),
      RenameSync (CONFIG base) (BACKUP base),
      RenameSync (FUTURE base) (CONFIG base)]"

definition swapConfigFile :: "string \<Rightarrow> string \<Rightarrow> world \<Rightarrow> (error + unit) \<times> world" where
  "swapConfigFile base content =
     thenE (fsCall (OutputFile (FUTURE base) content)) (\<lambda>_.
     thenE (fsCall (Remove (BACKUP base))) (\<lambda>_.
     thenE (fsCall (EnsureFile (CONFIG base))) (\<lambda>_.
     thenE (fsCall (RenameSync (CONFIG base) (BACKUP base))) (\<lambda>_.
     fsCall (RenameSync (FUTURE base) (CONFIG base))))))"

subsection \<open>Rendering the server blocks\<close>

text \<open>
  The synchronous part of the loop body (lines 115 to 129): certificate paths for a block
  with SSL, and the static root and the error pages directory of every block.
\<close>

definition prepareServer ::
  "CaptainConstants \<Rightarrow> Collaborators \<Rightarrow> IServerBlockDetails \<Rightarrow> IServerBlockDetails" where
  "prepareServer cc cm s =
    (let s1 = (if hasSsl s
               then s\<lparr>crtPath := Some (getSslCertPath cc cm (publicDomain s)),
                      keyPath := Some (getSslKeyPath cc cm (publicDomain s))\<rparr>
               else s)
     in s1\<lparr>staticWebRoot :=
              Some (nginxStaticRootDir cc @ nginxDomainSpecificHtmlDir cc @ ''/'' @ publicDomain s),
            customErrorPagesDirectory :=
              Some (nginxStaticRootDir cc @ nginxDefaultHtmlDir cc)\<rparr>)"

definition pathOfAuthInHost :: "string \<Rightarrow> IServerBlockDetails \<Rightarrow> string" where
  "pathOfAuthInHost configFilePathBase s = configFilePathBase @ ''-'' @ publicDomain s @ ''.auth''"

text \<open>\<^verbatim>\<open>path.basename\<close> of a path that does not end in a slash.\<close>

definition basename :: "string \<Rightarrow> string" where
  "basename p = rev (takeWhile (\<lambda>c. c \<noteq> CHR ''/'') (rev p))"

text \<open>
  Lines 137 to 141: a block with credentials gets the path of its credentials file inside
  the container. \<^verbatim>\<open>path.join\<close> of the directory and a base name is the two with a slash
  between them.
\<close>

definition setAuthPath :: "string \<Rightarrow> IServerBlockDetails \<Rightarrow> IServerBlockDetails" where
  "setAuthPath configFilePathBase s =
    (if httpBasicAuth s \<noteq> []
     then s\<lparr>httpBasicAuthPath :=
              Some (CONTAINER_PATH_OF_CONFIG @ ''/'' @ basename (pathOfAuthInHost configFilePathBase s))\<rparr>
     else s)"

text \<open>The block as \<^verbatim>\<open>ejs.render\<close> receives it in \<^verbatim>\<open>{ s: s }\<close>.\<close>

definition renderedServer ::
  "CaptainConstants \<Rightarrow> Collaborators \<Rightarrow> string \<Rightarrow> IServerBlockDetails \<Rightarrow> IServerBlockDetails" where
  "renderedServer cc cm configFilePathBase s = setAuthPath configFilePathBase (prepareServer cc cm s)"

definition renderOne :: "Collaborators \<Rightarrow> IServerBlockDetails \<Rightarrow> error + string" where
  "renderOne cm s =
    (case renderServer cm (nginxConfigTemplate s) s of
       None \<Rightarrow> Inl (TemplateRenderError (nginxConfigTemplate s))
     | Some rendered \<Rightarrow> Inr rendered)"

text \<open>
  The loop starts one promise chain for each block and \<^verbatim>\<open>Promise.all\<close> waits for them. The
  first callback of every chain runs before any chain goes on, so the credentials files
  are all requested, in the order of the blocks, whatever happens to the other chains.
  A chain without credentials then renders and appends to \<^verbatim>\<open>nginxConfigContent\<close> without
  waiting for the disk: these chains run first, in the order of the blocks, before any
  write has ended. A chain with credentials goes on when its own write ends: it is
  rejected if the write failed, and it renders and appends otherwise. \<^verbatim>\<open>Promise.all\<close>
  rejects with the first rejection in time; the writes that have not ended by then are
  not stopped, they stay in flight and end later.
\<close>

fun renderPlain :: "Collaborators \<Rightarrow> IServerBlockDetails list \<Rightarrow> error + string" where
  "renderPlain cm [] = Inr []"
| "renderPlain cm (s # ss) =
    (case renderOne cm s of
       Inl e \<Rightarrow> Inl e
     | Inr rendered \<Rightarrow>
         (case renderPlain cm ss of Inl e \<Rightarrow> Inl e | Inr rest \<Rightarrow> Inr (rendered @ rest)))"

text \<open>\<^verbatim>\<open>fs.outputFile(pathOfAuthInHost, s.httpBasicAuth)\<close> (lines 142 to 145).\<close>

definition authWrite :: "string \<Rightarrow> IServerBlockDetails \<Rightarrow> fs_call" where
  "authWrite configFilePathBase s =
     OutputFile (pathOfAuthInHost configFilePathBase s) (httpBasicAuth s)"

text \<open>
  The writes of the blocks with credentials are requested one after the other: each is a
  call on the disk, counted and recorded as the other calls are, and each is paired with
  whether it is going to fail (\<open>faults\<close> at the number of the call).
\<close>

definition requestWrites ::
  "string \<Rightarrow> IServerBlockDetails list \<Rightarrow> world \<Rightarrow> (IServerBlockDetails \<times> bool) list \<times> world" where
  "requestWrites configFilePathBase ss w =
     (zip ss (map (\<lambda>i. faults w (clock w + i)) [0..<length ss]),
      w\<lparr>clock := clock w + length ss,
        trace := trace w @ map (authWrite configFilePathBase) ss\<rparr>)"

text \<open>The list without its \<open>k\<close>-th element.\<close>

definition removeAt :: "nat \<Rightarrow> 'a list \<Rightarrow> 'a list" where
  "removeAt k xs = take k xs @ drop (Suc k) xs"

text \<open>
  The chain has been rejected while the writes \<open>l\<close> had not ended: those that are not
  going to fail are left in flight.
\<close>

definition leftInFlight ::
  "string \<Rightarrow> (IServerBlockDetails \<times> bool) list \<Rightarrow> world \<Rightarrow> world" where
  "leftInFlight configFilePathBase l w =
     w\<lparr>inFlight := inFlight w @
          map (\<lambda>y. (pathOfAuthInHost configFilePathBase (fst y), httpBasicAuth (fst y)))
            (filter (\<lambda>y. \<not> snd y) l)\<rparr>"

text \<open>
  The requested writes end one at a time, in the order that \<open>pick\<close> decides. A write that
  fails rejects its chain; a write that succeeds is on the disk, and its chain renders
  its block, which either throws or appends to the content. The first rejection ends
  the stage with the other writes still in flight.
\<close>

function completeWrites ::
  "Collaborators \<Rightarrow> string \<Rightarrow> (IServerBlockDetails \<times> bool) list \<Rightarrow> string \<Rightarrow> world
     \<Rightarrow> (error + string) \<times> world" where
  "completeWrites cm configFilePathBase [] content w = (Inr content, w)"
| "completeWrites cm configFilePathBase (x # xs) content w =
    (let k = pick w (picks w) mod length (x # xs);
         s = fst ((x # xs) ! k);
         rest = removeAt k (x # xs);
         w1 = w\<lparr>picks := Suc (picks w)\<rparr>
     in if snd ((x # xs) ! k)
        then (Inl (FileSystemError (authWrite configFilePathBase s)),
              leftInFlight configFilePathBase rest w1)
        else
          (let w2 = w1\<lparr>files :=
                         (files w1)(pathOfAuthInHost configFilePathBase s \<mapsto> httpBasicAuth s)\<rparr>
           in case renderOne cm s of
                Inl e \<Rightarrow> (Inl e, leftInFlight configFilePathBase rest w2)
              | Inr rendered \<Rightarrow>
                  completeWrites cm configFilePathBase rest (content @ rendered) w2))"
  by pat_completeness auto
termination
  by (relation "measure (\<lambda>(cm, b, l, c, w). length l)") (auto simp: removeAt_def)

text \<open>
  Lines 110 to 161. When a block without credentials throws, the rejection comes before
  any write has ended, and all the writes are left in flight.
\<close>

definition renderServers ::
  "CaptainConstants \<Rightarrow> Collaborators \<Rightarrow> string \<Rightarrow> IServerBlockDetails list \<Rightarrow> world
     \<Rightarrow> (error + string) \<times> world" where
  "renderServers cc cm configFilePathBase servers w =
    (let ss = map (renderedServer cc cm configFilePathBase) servers;
         plain = filter (\<lambda>s. httpBasicAuth s = []) ss;
         withAuth = filter (\<lambda>s. httpBasicAuth s \<noteq> []) ss
     in case requestWrites configFilePathBase withAuth w of
          (writes, w1) \<Rightarrow>
            (case renderPlain cm plain of
               Inl e \<Rightarrow> (Inl e, leftInFlight configFilePathBase writes w1)
             | Inr first \<Rightarrow> completeWrites cm configFilePathBase writes first w1))"

text \<open>
  One of the writes that a rejected reload left in flight ends: its file is on the disk.
  Nothing in the program waits for it or sees it; the disk does this on its own, one
  write at a time, after the promise of that reload has been rejected.
\<close>

definition writeLanded :: "world \<Rightarrow> world" where
  "writeLanded w =
    (if inFlight w = [] then w
     else
       (let k = pick w (picks w) mod length (inFlight w)
        in w\<lparr>files := (files w)(fst (inFlight w ! k) \<mapsto> snd (inFlight w ! k)),
             inFlight := removeAt k (inFlight w),
             picks := Suc (picks w)\<rparr>))"

subsection \<open>createRootConfFile\<close>

definition rootBindings :: "CaptainConstants \<Rightarrow> Collaborators \<Rightarrow> DataStore \<Rightarrow> RootBindings" where
  "rootBindings cc cm dataStore =
    (let captainDomain = captainSubDomain cc @ ''.'' @ rootDomain dataStore;
         registryDomain = registrySubDomain cc @ ''.'' @ rootDomain dataStore
     in \<lparr> fake_crtPath = NGINX_CONTAINER_PATH_OF_FAKE_CERTS @ ''/nginx.crt'',
          fake_keyPath = NGINX_CONTAINER_PATH_OF_FAKE_CERTS @ ''/nginx.key'',
          captain_crtPath = getSslCertPath cc cm captainDomain,
          captain_keyPath = getSslKeyPath cc cm captainDomain,
          captain_hasRootSsl = hasRootSsl dataStore,
          captain_serviceName = captainServiceName cc,
          captain_domain = captainDomain,
          captain_serviceExposedPort = captainServiceExposedPort cc,
          captain_defaultHtmlDir = nginxStaticRootDir cc @ nginxDefaultHtmlDir cc,
          captain_staticWebRoot =
            nginxStaticRootDir cc @ nginxDomainSpecificHtmlDir cc @ ''/'' @ captainDomain,
          registry_crtPath = getSslCertPath cc cm registryDomain,
          registry_keyPath = getSslKeyPath cc cm registryDomain,
          registry_hasRootSsl = hasRegistrySsl dataStore,
          registry_domain = registryDomain,
          registry_staticWebRoot =
            nginxStaticRootDir cc @ nginxDomainSpecificHtmlDir cc @ ''/'' @ registryDomain \<rparr>)"

definition createRootConfFile ::
  "CaptainConstants \<Rightarrow> Collaborators \<Rightarrow> DataStore \<Rightarrow> world \<Rightarrow> (error + unit) \<times> world" where
  "createRootConfFile cc cm dataStore =
    (let rootNginxTemplate =
           orElse (customValue (captainConfig dataStore)) (byDefault (captainConfig dataStore))
     in thenE
          (\<lambda>w. (case renderRoot cm rootNginxTemplate (rootBindings cc cm dataStore) of
                   None \<Rightarrow> Inl (TemplateRenderError rootNginxTemplate)
                 | Some rootNginxConfContent \<Rightarrow> Inr rootNginxConfContent, w))
          (\<lambda>rootNginxConfContent. swapConfigFile (rootNginxConfigPath cc) rootNginxConfContent))"

subsection \<open>One reload\<close>

text \<open>
  The promise chain of \<^verbatim>\<open>consumeQueueIfAnyInNginxReloadQueue\<close> from line 89 to line 179,
  for the data store of the request that was taken.
\<close>

definition configFilePathBase :: "CaptainConstants \<Rightarrow> DataStore \<Rightarrow> string" where
  "configFilePathBase cc dataStore = perAppNginxConfigPathBase cc @ ''/'' @ nameSpace dataStore"

definition reloadPipeline ::
  "CaptainConstants \<Rightarrow> Collaborators \<Rightarrow> DataStore \<Rightarrow> world \<Rightarrow> (error + unit) \<times> world" where
  "reloadPipeline cc cm dataStore =
     thenE (fsCall (Remove (FUTURE (configFilePathBase cc dataStore)))) (\<lambda>_.
     thenE (renderServers cc cm (configFilePathBase cc dataStore) (getServerList dataStore))
       (\<lambda>nginxConfigContent.
     thenE (swapConfigFile (configFilePathBase cc dataStore) nginxConfigContent) (\<lambda>_.
     createRootConfFile cc cm dataStore)))"

subsection \<open>The reload queue\<close>

text \<open>
  A queued request is the data store and the \<^verbatim>\<open>resolve\<close> and \<^verbatim>\<open>reject\<close> of the promise that
  \<^verbatim>\<open>rePopulateNginxConfigFile\<close> returned; the promise is a number here. \<open>running\<close> is the
  request \<^verbatim>\<open>q\<close> that the promise chain in flight has captured, \<open>started\<close> lists the
  requests for which a chain was started and \<open>settled\<close> the promises that were resolved
  or rejected, both in order.
\<close>

record ReloadRequest =
  promise :: nat
  dataStore :: DataStore

datatype settlement = Resolved | Rejected error

record LoadBalancerManager =
  reloadInProcess :: bool
  requestedReloadPromises :: "ReloadRequest list"
  running :: "ReloadRequest option"
  nextPromise :: nat
  started :: "ReloadRequest list"
  settled :: "(nat \<times> settlement) list"
  disk :: world

text \<open>
  Lines 71 to 87: \<^verbatim>\<open>pop()\<close> takes the last request, and only then is \<^verbatim>\<open>reloadInProcess\<close>
  looked at.
\<close>

definition consumeQueueIfAnyInNginxReloadQueue :: "LoadBalancerManager \<Rightarrow> LoadBalancerManager" where
  "consumeQueueIfAnyInNginxReloadQueue self =
    (if requestedReloadPromises self = [] then self
     else
       (let q = last (requestedReloadPromises self);
            self1 = self\<lparr>requestedReloadPromises := butlast (requestedReloadPromises self)\<rparr>
        in if reloadInProcess self1 then self1
           else self1\<lparr>reloadInProcess := True,
                      running := Some q,
                      started := started self1 @ [q]\<rparr>))"

definition rePopulateNginxConfigFile :: "DataStore \<Rightarrow> LoadBalancerManager \<Rightarrow> LoadBalancerManager" where
  "rePopulateNginxConfigFile dataStoreToQueue self =
     consumeQueueIfAnyInNginxReloadQueue
       (self\<lparr>requestedReloadPromises :=
                requestedReloadPromises self
                  @ [\<lparr>promise = nextPromise self, dataStore = dataStoreToQueue\<rparr>],
              nextPromise := Suc (nextPromise self)\<rparr>)"

text \<open>
  The chain in flight reaches its last \<^verbatim>\<open>then\<close> (lines 180 to 185) or its \<^verbatim>\<open>catch\<close>
  (lines 186 to 192): the flag is cleared, the promise of \<^verbatim>\<open>q\<close> is settled and the queue
  is looked at again. The calls that the chain made on the disk are applied here, and the
  credentials writes that a rejected chain leaves behind are in flight on the new disk.
\<close>

definition reloadFinished ::
  "CaptainConstants \<Rightarrow> Collaborators \<Rightarrow> LoadBalancerManager \<Rightarrow> LoadBalancerManager" where
  "reloadFinished cc cm self =
    (case running self of
       None \<Rightarrow> self
     | Some q \<Rightarrow>
         (case reloadPipeline cc cm (dataStore q) (disk self) of
            (r, w') \<Rightarrow>
              consumeQueueIfAnyInNginxReloadQueue
                (self\<lparr>disk := w',
                       reloadInProcess := False,
                       running := None,
                       settled := settled self
                         @ [(promise q, case r of Inl e \<Rightarrow> Rejected e | Inr u \<Rightarrow> Resolved)]\<rparr>)))"

text \<open>What happens to the manager: a caller asks for a reload, or the reload in flight ends.\<close>

datatype event = Request DataStore | Finished

fun step :: "CaptainConstants \<Rightarrow> Collaborators \<Rightarrow> LoadBalancerManager \<Rightarrow> event \<Rightarrow> LoadBalancerManager" where
  "step cc cm self (Request d) = rePopulateNginxConfigFile d self"
| "step cc cm self Finished = reloadFinished cc cm self"

definition run ::
  "CaptainConstants \<Rightarrow> Collaborators \<Rightarrow> LoadBalancerManager \<Rightarrow> event list \<Rightarrow> LoadBalancerManager" where
  "run cc cm self evs = foldl (step cc cm) self evs"

text \<open>The manager as the constructor leaves it, on a given disk.\<close>

definition newManager :: "world \<Rightarrow> LoadBalancerManager" where
  "newManager w =
     \<lparr> reloadInProcess = False,
       requestedReloadPromises = [],
       running = None,
       nextPromise = 0,
       started = [],
       settled = [],
       disk = w \<rparr>"

subsection \<open>getInfo\<close>

text \<open>
  \<^verbatim>\<open>String.prototype.split\<close> with a one-character separator: every occurrence separates,
  so two separators in a row, or one at either end, give an empty piece.
\<close>

fun split :: "char \<Rightarrow> string \<Rightarrow> string list" where
  "split sep [] = [[]]"
| "split sep (c # cs) =
    (if c = sep then [] # split sep cs
     else (case split sep cs of [] \<Rightarrow> [[c]] | piece # pieces \<Rightarrow> (c # piece) # pieces))"

text \<open>An index into an array: out of range is \<^verbatim>\<open>undefined\<close>.\<close>

definition at :: "'a list \<Rightarrow> nat \<Rightarrow> 'a option" where
  "at xs i = (if i < length xs then Some (xs ! i) else None)"

text \<open>The ASCII white space that \<^verbatim>\<open>trim\<close> removes from both ends.\<close>

definition isSpace :: "char \<Rightarrow> bool" where
  "isSpace c = (c \<in> set [CHR '' '', CHR 0x09, CHR 0x0A, CHR 0x0B, CHR 0x0C, CHR 0x0D])"

definition trim :: "string \<Rightarrow> string" where
  "trim s = rev (dropWhile isSpace (rev (dropWhile isSpace s)))"

text \<open>
  \<^verbatim>\<open>Number\<close> of a trimmed string: the empty string is 0 and a string of decimal digits
  is the integer it spells, which a double holds exactly up to \<open>2 ^ 53\<close>. Every other
  string (a sign, a fraction, an exponent, a hexadecimal literal, more digits, or
  something that is not a number at all) is kept as it is, uninterpreted.
\<close>

datatype jsnumber = Integer nat | OtherNumber string

definition isDigit :: "char \<Rightarrow> bool" where
  "isDigit c = (c \<in> set ''0123456789'')"

definition decimal :: "string \<Rightarrow> nat" where
  "decimal s = foldl (\<lambda>n c. 10 * n + (of_char c - 48)) 0 s"

definition Number :: "string \<Rightarrow> jsnumber" where
  "Number s =
    (if s = [] then Integer 0
     else if list_all isDigit s \<and> decimal s \<le> 2 ^ 53 then Integer (decimal s)
     else OtherNumber s)"

record LoadBalancerInfo =
  activeConnections :: jsnumber
  accepted :: jsnumber
  handled :: jsnumber
  total :: jsnumber
  reading :: jsnumber
  writing :: jsnumber
  waiting :: jsnumber

datatype api_error = RequestToNginxFailed | ParserFailed

text \<open>
  \<^verbatim>\<open>Number(lines[i].split(' ')[j].trim())\<close>: a missing line or a missing piece makes the
  method call on \<^verbatim>\<open>undefined\<close> throw, which is \<open>None\<close>.
\<close>

definition field :: "string list \<Rightarrow> nat \<Rightarrow> nat \<Rightarrow> jsnumber option" where
  "field lines i j =
    (case at lines i of
       None \<Rightarrow> None
     | Some line \<Rightarrow>
         (case at (split CHR '' '' line) j of
            None \<Rightarrow> None
          | Some piece \<Rightarrow> Some (Number (trim piece))))"

text \<open>The \<^verbatim>\<open>try\<close> block (lines 349 to 364): the seven assignments in their order.\<close>

definition parseStatus :: "string \<Rightarrow> LoadBalancerInfo option" where
  "parseStatus body =
    (let lines = split (CHR 0x0A) body
     in Option.bind (field lines 0 2) (\<lambda>activeConnections'.
        Option.bind (field lines 2 1) (\<lambda>accepted'.
        Option.bind (field lines 2 2) (\<lambda>handled'.
        Option.bind (field lines 2 3) (\<lambda>total'.
        Option.bind (field lines 3 1) (\<lambda>reading'.
        Option.bind (field lines 3 3) (\<lambda>writing'.
        Option.bind (field lines 3 5) (\<lambda>waiting'.
          Some \<lparr> activeConnections = activeConnections',
                 accepted = accepted',
                 handled = handled',
                 total = total',
                 reading = reading',
                 writing = writing',
                 waiting = waiting' \<rparr>))))))))"

text \<open>
  The callback of \<^verbatim>\<open>request\<close> (lines 336 to 374), given whether \<^verbatim>\<open>error\<close> is set and the
  body, if there is one.
\<close>

definition getInfo :: "bool \<Rightarrow> string option \<Rightarrow> api_error + LoadBalancerInfo" where
  "getInfo error' body =
    (case body of
       None \<Rightarrow> Inl RequestToNginxFailed
     | Some b \<Rightarrow>
         if error' \<or> b = [] then Inl RequestToNginxFailed
         else (case parseStatus b of None \<Rightarrow> Inl ParserFailed | Some data \<Rightarrow> Inr data))"

subsection \<open>init: placing the proxy service\<close>

record PortMapping =
  protocol :: string
  publishMode :: string
  containerPort :: nat
  hostPort :: nat

record Mount =
  containerPath :: string
  hostPath :: string

datatype docker_call =
    IsServiceRunningByName string
  | GetNodeIdByServiceName string nat
  | CreateServiceOnNodeId string string "PortMapping list" string nat
  | RemoveServiceByName string
  | UpdateService string string "Mount list" "string list"

datatype docker_error = SchedulerClientError docker_call

text \<open>
  The swarm: which node hosts which service. As for the disk, \<open>dfaults sw n\<close> says that
  the \<open>n\<close>-th call fails, and \<open>dcalls\<close> records the calls in order.
\<close>

record swarm =
  services :: "string \<Rightarrow> string option"
  dfaults :: "nat \<Rightarrow> bool"
  dclock :: nat
  dcalls :: "docker_call list"

definition called :: "docker_call \<Rightarrow> swarm \<Rightarrow> swarm" where
  "called c sw = sw\<lparr>dclock := Suc (dclock sw), dcalls := dcalls sw @ [c]\<rparr>"

text \<open>
  Modelled from the spec: the scheduler client (\<^verbatim>\<open>DockerApi\<close>, not in this file): check
  running by name, get the hosting node by service name, create a service on a node,
  remove a service by name, update a service. A failed call changes nothing.
\<close>

definition isServiceRunningByName :: "string \<Rightarrow> swarm \<Rightarrow> (docker_error + bool) \<times> swarm" where
  "isServiceRunningByName name sw =
    (let c = IsServiceRunningByName name
     in if dfaults sw (dclock sw) then (Inl (SchedulerClientError c), called c sw)
        else (Inr (services sw name \<noteq> None), called c sw))"

definition getNodeIdByServiceName ::
  "string \<Rightarrow> nat \<Rightarrow> swarm \<Rightarrow> (docker_error + string) \<times> swarm" where
  "getNodeIdByServiceName name retryCount sw =
    (let c = GetNodeIdByServiceName name retryCount
     in if dfaults sw (dclock sw) then (Inl (SchedulerClientError c), called c sw)
        else (case services sw name of
                None \<Rightarrow> (Inl (SchedulerClientError c), called c sw)
              | Some nodeId \<Rightarrow> (Inr nodeId, called c sw)))"

definition createServiceOnNodeId ::
  "string \<Rightarrow> string \<Rightarrow> PortMapping list \<Rightarrow> string \<Rightarrow> nat \<Rightarrow> swarm
     \<Rightarrow> (docker_error + unit) \<times> swarm" where
  "createServiceOnNodeId imageName name ports nodeId memoryBytes sw =
    (let c = CreateServiceOnNodeId imageName name ports nodeId memoryBytes
     in if dfaults sw (dclock sw) then (Inl (SchedulerClientError c), called c sw)
        else (Inr (), (called c sw)\<lparr>services := (services sw)(name \<mapsto> nodeId)\<rparr>))"

definition removeServiceByName :: "string \<Rightarrow> swarm \<Rightarrow> (docker_error + unit) \<times> swarm" where
  "removeServiceByName name sw =
    (let c = RemoveServiceByName name
     in if dfaults sw (dclock sw) then (Inl (SchedulerClientError c), called c sw)
        else (Inr (), (called c sw)\<lparr>services := (services sw)(name := None)\<rparr>))"

definition updateService ::
  "string \<Rightarrow> string \<Rightarrow> Mount list \<Rightarrow> string list \<Rightarrow> swarm \<Rightarrow> (docker_error + unit) \<times> swarm" where
  "updateService name imageName mounts networks sw =
    (let c = UpdateService name imageName mounts networks
     in if dfaults sw (dclock sw) then (Inl (SchedulerClientError c), called c sw)
        else (Inr (), called c sw))"

text \<open>
  \<^verbatim>\<open>createNginxServiceOnNode\<close> (lines 493 to 538), without the five seconds it then waits.
\<close>

definition nginxPorts :: "CaptainConstants \<Rightarrow> PortMapping list" where
  "nginxPorts cc =
     [\<lparr>protocol = ''tcp'', publishMode = ''host'', containerPort = 80,
        hostPort = nginxPortNumber cc\<rparr>,
      \<lparr>protocol = ''tcp'', publishMode = ''host'', containerPort = 443, hostPort = 443\<rparr>]"

definition createNginxServiceOnNode ::
  "CaptainConstants \<Rightarrow> string \<Rightarrow> swarm \<Rightarrow> (docker_error + unit) \<times> swarm" where
  "createNginxServiceOnNode cc nodeId =
     createServiceOnNodeId (nginxImageName cc) (nginxServiceName cc) (nginxPorts cc) nodeId
       (30 * 1024 * 1024)"

text \<open>The six mounts of the call of \<^verbatim>\<open>updateService\<close> (lines 663 to 691).\<close>

definition nginxMounts :: "CaptainConstants \<Rightarrow> Mount list" where
  "nginxMounts cc =
     [\<lparr>containerPath = nginxStaticRootDir cc, hostPath = captainStaticFilesDir cc\<rparr>,
      \<lparr>containerPath = NGINX_CONTAINER_PATH_OF_FAKE_CERTS, hostPath = HOST_PATH_OF_FAKE_CERTS cc\<rparr>,
      \<lparr>containerPath = ''/etc/nginx/nginx.conf'', hostPath = baseNginxConfigPath cc\<rparr>,
      \<lparr>containerPath = CONTAINER_PATH_OF_CONFIG, hostPath = perAppNginxConfigPathBase cc\<rparr>,
      \<lparr>containerPath = letsEncryptEtcPathOnNginx cc, hostPath = letsEncryptEtcPath cc\<rparr>,
      \<lparr>containerPath = nginxSharedPathOnNginx cc, hostPath = nginxSharedPathOnHost cc\<rparr>]"

text \<open>
  The part of \<^verbatim>\<open>init\<close> that talks to the swarm (lines 619 to 704), reached once the
  static pages, the certificates, the base configuration and the first reload are done.
  The wait that follows the update is left out.
\<close>

definition init_service :: "CaptainConstants \<Rightarrow> string \<Rightarrow> swarm \<Rightarrow> (docker_error + unit) \<times> swarm" where
  "init_service cc myNodeId =
     thenE (isServiceRunningByName (nginxServiceName cc)) (\<lambda>isRunning.
     thenE (if isRunning then getNodeIdByServiceName (nginxServiceName cc) 0
            else thenE (createNginxServiceOnNode cc myNodeId) (\<lambda>_ sw. (Inr myNodeId, sw)))
       (\<lambda>nodeId.
     thenE (if nodeId \<noteq> myNodeId
            then thenE (removeServiceByName (nginxServiceName cc)) (\<lambda>_.
                 thenE (createNginxServiceOnNode cc myNodeId) (\<lambda>_ sw. (Inr True, sw)))
            else (\<lambda>sw. (Inr True, sw)))
       (\<lambda>_.
     updateService (nginxServiceName cc) (nginxImageName cc) (nginxMounts cc)
       [captainNetworkName cc])))"

subsection \<open>Example values\<close>

text \<open>
  A small installation on which the theorems below are instantiated: four exposed
  applications and a hidden one. \<open>foo\<close> has credentials and a custom domain, \<open>bar\<close> has a
  password hash but an empty user name, and its own template, \<open>baz\<close> has no credentials
  and its own template, \<open>qux\<close> has no credentials and the default template. The example
  renderer throws on the template \<^verbatim>\<open><% throw %>\<close> and nowhere else.
\<close>

definition exampleConstants :: CaptainConstants where
  "exampleConstants =
     \<lparr> perAppNginxConfigPathBase = ''/captain/generated/nginx/conf.d'',
       rootNginxConfigPath = ''/captain/generated/nginx/conf.d/captain-root'',
       baseNginxConfigPath = ''/captain/generated/nginx/nginx.conf'',
       nginxStaticRootDir = ''/usr/share/nginx'',
       nginxDomainSpecificHtmlDir = ''/domains'',
       nginxDefaultHtmlDir = ''/default'',
       letsEncryptEtcPathOnNginx = ''/letencrypt/etc'',
       letsEncryptEtcPath = ''/captain/data/letencrypt/etc'',
       nginxSharedPathOnNginx = ''/nginx-shared'',
       nginxSharedPathOnHost = ''/captain/data/nginx-shared'',
       captainStaticFilesDir = ''/captain/generated/static'',
       captainRootDirectoryGenerated = ''/captain/generated'',
       captainSubDomain = ''captain'',
       registrySubDomain = ''registry'',
       captainServiceName = ''captain-captain'',
       captainServiceExposedPort = 3000,
       nginxServiceName = ''captain-nginx'',
       nginxImageName = ''nginx'',
       nginxPortNumber = 80,
       captainNetworkName = ''captain-overlay-network'' \<rparr>"

definition exampleCollaborators :: Collaborators where
  "exampleCollaborators =
     \<lparr> getCertRelativePathForDomain = (\<lambda>d. ''/live/'' @ d @ ''/fullchain.pem''),
       getKeyRelativePathForDomain = (\<lambda>d. ''/live/'' @ d @ ''/privkey.pem''),
       renderServer =
         (\<lambda>t s. if t = ''<% throw %>'' then None else Some (''server '' @ publicDomain s @ '';'')),
       renderRoot =
         (\<lambda>t b. if t = ''<% throw %>'' then None else Some (''root '' @ captain_domain b @ '';'')) \<rparr>"

definition fooApp :: IAppDef where
  "fooApp =
     \<lparr> IAppDef.httpAuth = Some \<lparr>user = ''u'', passwordHashed = Some ''h''\<rparr>,
       IAppDef.notExposeAsWebApp = False,
       IAppDef.forceSsl = False,
       IAppDef.websocketSupport = False,
       IAppDef.customNginxConfig = None,
       IAppDef.hasDefaultSubDomainSsl = True,
       IAppDef.containerHttpPort = None,
       IAppDef.customDomain = Some [\<lparr>ICustomDomain.publicDomain = ''www.foo.org'', ICustomDomain.hasSsl = False\<rparr>] \<rparr>"

definition barApp :: IAppDef where
  "barApp =
     \<lparr> IAppDef.httpAuth = Some \<lparr>user = [], passwordHashed = Some ''h''\<rparr>,
       IAppDef.notExposeAsWebApp = False,
       IAppDef.forceSsl = True,
       IAppDef.websocketSupport = False,
       IAppDef.customNginxConfig = Some ''<% throw %>'',
       IAppDef.hasDefaultSubDomainSsl = False,
       IAppDef.containerHttpPort = Some 8080,
       IAppDef.customDomain = None \<rparr>"

definition bazApp :: IAppDef where
  "bazApp =
     \<lparr> IAppDef.httpAuth = None,
       IAppDef.notExposeAsWebApp = False,
       IAppDef.forceSsl = False,
       IAppDef.websocketSupport = True,
       IAppDef.customNginxConfig = Some ''<% throw %>'',
       IAppDef.hasDefaultSubDomainSsl = False,
       IAppDef.containerHttpPort = None,
       IAppDef.customDomain = None \<rparr>"

definition quxApp :: IAppDef where
  "quxApp =
     \<lparr> IAppDef.httpAuth = None,
       IAppDef.notExposeAsWebApp = False,
       IAppDef.forceSsl = False,
       IAppDef.websocketSupport = False,
       IAppDef.customNginxConfig = None,
       IAppDef.hasDefaultSubDomainSsl = False,
       IAppDef.containerHttpPort = None,
       IAppDef.customDomain = None \<rparr>"

definition workerApp :: IAppDef where
  "workerApp =
     \<lparr> IAppDef.httpAuth = None,
       IAppDef.notExposeAsWebApp = True,
       IAppDef.forceSsl = False,
       IAppDef.websocketSupport = False,
       IAppDef.customNginxConfig = None,
       IAppDef.hasDefaultSubDomainSsl = False,
       IAppDef.containerHttpPort = None,
       IAppDef.customDomain = Some [\<lparr>ICustomDomain.publicDomain = ''worker.org'', ICustomDomain.hasSsl = False\<rparr>] \<rparr>"

definition exampleStore :: "(string \<times> IAppDef) list \<Rightarrow> DataStore" where
  "exampleStore apps =
     \<lparr> nameSpace = ''captain'',
       hasRootSsl = True,
       rootDomain = ''example.com'',
       hasRegistrySsl = False,
       defaultAppNginxConfig = ''<%= s.publicDomain %>'',
       appDefinitions = apps,
       serviceName = (\<lambda>appName. ''srv-captain--'' @ appName),
       captainConfig = \<lparr>byDefault = ''<%= captain.domain %>'', customValue = None\<rparr> \<rparr>"

text \<open>
  A disk with a configuration and its backup; its \<open>n\<close>-th call fails when \<open>bad n\<close>, and of
  the writes in flight the one requested first ends first.
\<close>

definition exampleDisk :: "(nat \<Rightarrow> bool) \<Rightarrow> world" where
  "exampleDisk bad =
     \<lparr> files =
         [''/captain/generated/nginx/conf.d/captain.conf'' \<mapsto> ''current'',
          ''/captain/generated/nginx/conf.d/captain.bak'' \<mapsto> ''previous''],
       faults = bad,
       clock = 0,
       trace = [],
       pick = (\<lambda>n. 0),
       picks = 0,
       inFlight = [] \<rparr>"

definition exampleSwarm :: "string option \<Rightarrow> swarm" where
  "exampleSwarm node =
     \<lparr> services = (\<lambda>name. if name = ''captain-nginx'' then node else None),
       dfaults = (\<lambda>n. False),
       dclock = 0,
       dcalls = [] \<rparr>"

text \<open>
  A manager that is idle with two requests pending, on a disk whose first call fails.
\<close>

definition twoPending :: LoadBalancerManager where
  "twoPending =
     (newManager (exampleDisk (\<lambda>n. n = 0)))
       \<lparr>requestedReloadPromises :=
          [\<lparr>promise = 0, dataStore = exampleStore []\<rparr>,
           \<lparr>promise = 1, dataStore = exampleStore []\<rparr>],
        nextPromise := 2\<rparr>"

text \<open>
  A manager on which a reload of the given applications has been requested and is in
  flight.
\<close>

definition reloading :: "(string \<times> IAppDef) list \<Rightarrow> world \<Rightarrow> LoadBalancerManager" where
  "reloading apps w = rePopulateNginxConfigFile (exampleStore apps) (newManager w)"

section \<open>Properties\<close>

lemmas example_defs =
  exampleConstants_def exampleCollaborators_def exampleStore_def fooApp_def barApp_def
  bazApp_def quxApp_def workerApp_def

lemmas server_list_defs =
  getServerList_def getAppsServerConfig_def appServerBlocks_def orElse_def Let_def

lemmas render_defs =
  renderedServer_def setAuthPath_def prepareServer_def pathOfAuthInHost_def basename_def
  getSslCertPath_def getSslKeyPath_def CONTAINER_PATH_OF_CONFIG_def configFilePathBase_def

lemmas run_defs =
  reloadPipeline_def thenE_def fsCall_def swapConfigFile_def createRootConfFile_def
  renderServers_def requestWrites_def leftInFlight_def removeAt_def authWrite_def
  renderOne_def rootBindings_def FUTURE_def BACKUP_def CONFIG_def exampleDisk_def
  NGINX_CONTAINER_PATH_OF_FAKE_CERTS_def

lemmas queue_defs =
  rePopulateNginxConfigFile_def consumeQueueIfAnyInNginxReloadQueue_def reloadFinished_def
  newManager_def run_def Let_def

lemmas eval_defs =
  reloading_def queue_defs run_defs server_list_defs example_defs render_defs

lemmas swarm_defs =
  init_service_def thenE_def isServiceRunningByName_def getNodeIdByServiceName_def
  createNginxServiceOnNode_def createServiceOnNodeId_def removeServiceByName_def
  updateService_def called_def Let_def

lemmas status_defs =
  getInfo_def parseStatus_def field_def at_def Number_def trim_def isSpace_def isDigit_def
  decimal_def

subsection \<open>The list of server blocks\<close>

lemma foldl_append_concat: "foldl (\<lambda>acc x. acc @ f x) a xs = a @ concat (map f xs)"
  by (induction xs arbitrary: a) auto

lemma getAppsServerConfig_concat:
  "getAppsServerConfig ds d h r = concat (map (appServerBlocks ds d h r) (appDefinitions ds))"
  by (simp add: getAppsServerConfig_def foldl_append_concat)

lemma length_appServerBlocks:
  "length (appServerBlocks ds d h r app) =
     (if notExposeAsWebApp (snd app) then 0
      else 1 + (case customDomain (snd app) of None \<Rightarrow> 0 | Some cs \<Rightarrow> length cs))"
  by (simp add: appServerBlocks_def Let_def split: option.splits)

lemma count_blocks:
  "sum_list (map (\<lambda>app. length (appServerBlocks ds d h r app)) apps) =
   sum_list (map (\<lambda>app. 1 + (case customDomain (snd app) of None \<Rightarrow> 0 | Some cs \<Rightarrow> length cs))
     (filter (\<lambda>app. \<not> notExposeAsWebApp (snd app)) apps))"
  by (induction apps) (simp_all add: length_appServerBlocks)

lemma blocks_in_list:
  assumes "app \<in> set (appDefinitions ds)"
    and "d \<in> set (appServerBlocks ds (defaultAppNginxConfig ds) (hasRootSsl ds) (rootDomain ds) app)"
  shows "d \<in> set (getServerList ds)"
  using assms by (auto simp: getServerList_def getAppsServerConfig_concat)

text \<open>
  C8. The number of descriptors that \<open>getAppsServerConfig\<close> returns is the sum, over the
  applications that are not flagged \<open>notExposeAsWebApp\<close>, of one plus the number of custom
  domains of the application; a flagged application adds nothing.
\<close>

theorem descriptor_count:
  "length (getAppsServerConfig ds d h r) =
     sum_list (map (\<lambda>app. 1 + (case customDomain (snd app) of None \<Rightarrow> 0 | Some cs \<Rightarrow> length cs))
       (filter (\<lambda>app. \<not> notExposeAsWebApp (snd app)) (appDefinitions ds)))"
  by (simp add: getAppsServerConfig_concat length_concat comp_def count_blocks)

text \<open>
  C7, as the code has it. Every descriptor of an application carries
  \<open>user @ '':'' @ passwordHashed\<close> when the application has an \<open>httpAuth\<close> whose
  \<open>passwordHashed\<close> is a non-empty string, and the empty string otherwise. The user
  name is not looked at.
\<close>

theorem basic_auth_of_descriptor:
  assumes "(appName, webApp) \<in> set (appDefinitions ds)"
    and "d \<in> set (appServerBlocks ds (defaultAppNginxConfig ds) (hasRootSsl ds) (rootDomain ds)
                    (appName, webApp))"
  shows "d \<in> set (getServerList ds) \<and>
         httpBasicAuth d =
           (case IAppDef.httpAuth webApp of
              None \<Rightarrow> []
            | Some a \<Rightarrow>
               (case passwordHashed a of
                  None \<Rightarrow> []
                | Some hashed \<Rightarrow> if hashed = [] then [] else user a @ '':'' @ hashed))"
proof
  show "d \<in> set (getServerList ds)"
    using assms by (rule blocks_in_list)
  show "httpBasicAuth d =
           (case IAppDef.httpAuth webApp of
              None \<Rightarrow> []
            | Some a \<Rightarrow>
               (case passwordHashed a of
                  None \<Rightarrow> []
                | Some hashed \<Rightarrow> if hashed = [] then [] else user a @ '':'' @ hashed))"
    using assms(2)
    by (auto simp: appServerBlocks_def Let_def split: if_splits option.splits)
qed

text \<open>
  On \<open>foo\<close>, with user \<open>u\<close> and hash \<open>h\<close>, the descriptor of the custom domain carries
  \<open>u:h\<close>.
\<close>

theorem basic_auth_witness:
  "appServerBlocks (exampleStore [(''foo'', fooApp)]) ''<%= s.publicDomain %>'' True
       ''example.com'' (''foo'', fooApp) ! 1
     \<in> set (getServerList (exampleStore [(''foo'', fooApp)])) \<and>
   httpBasicAuth
     (appServerBlocks (exampleStore [(''foo'', fooApp)]) ''<%= s.publicDomain %>'' True
        ''example.com'' (''foo'', fooApp) ! 1) = ''u:h''"
proof -
  let ?ds = "exampleStore [(''foo'', fooApp)]"
  let ?d = "appServerBlocks ?ds (defaultAppNginxConfig ?ds) (hasRootSsl ?ds) (rootDomain ?ds)
              (''foo'', fooApp) ! 1"
  have 1: "(''foo'', fooApp) \<in> set (appDefinitions ?ds)"
    by (simp add: exampleStore_def)
  have 2: "?d \<in> set (appServerBlocks ?ds (defaultAppNginxConfig ?ds) (hasRootSsl ?ds)
                        (rootDomain ?ds) (''foo'', fooApp))"
    by (rule nth_mem) (simp add: length_appServerBlocks fooApp_def)
  from basic_auth_of_descriptor[OF 1 2] show ?thesis
    by (simp add: fooApp_def exampleStore_def)
qed

text \<open>
  The claim as written fails on \<open>bar\<close>: the user name is empty, only the hash is set, and
  the field is \<open>:h\<close>, not the empty string.
\<close>

theorem basic_auth_counterexample:
  "user (the (IAppDef.httpAuth barApp)) = [] \<and>
   passwordHashed (the (IAppDef.httpAuth barApp)) = Some ''h'' \<and>
   map httpBasicAuth (getServerList (exampleStore [(''bar'', barApp)])) = ['':h'']"
  by (simp add: server_list_defs example_defs)

text \<open>
  C2, as the code has it. For an exposed application, the descriptor of its \<open>i\<close>-th
  custom domain takes the upstream, the credentials, the template and the port of the
  application's first descriptor and the custom domain's own name and SSL flag. As
  \<open>getAppsServerConfig\<close> returns it, its static root and error pages directory are empty
  strings; as the template receives it, both have been set from the constants and the
  public domain, like those of every other descriptor.
\<close>

theorem custom_domain_descriptor:
  assumes "\<not> notExposeAsWebApp webApp"
    and "customDomain webApp = Some cds"
    and "i < length cds"
  shows
    "(let blocks = appServerBlocks ds dflt rs rd (appName, webApp);
          p = blocks ! 0;
          c = blocks ! Suc i;
          c' = renderedServer cc cm base c
      in publicDomain c = ICustomDomain.publicDomain (cds ! i) \<and>
         hasSsl c = ICustomDomain.hasSsl (cds ! i) \<and>
         localDomain c = localDomain p \<and>
         httpBasicAuth c = httpBasicAuth p \<and>
         nginxConfigTemplate c = nginxConfigTemplate p \<and>
         containerHttpPort c = containerHttpPort p \<and>
         staticWebRoot c = Some [] \<and>
         customErrorPagesDirectory c = Some [] \<and>
         publicDomain c' = publicDomain c \<and>
         hasSsl c' = hasSsl c \<and>
         localDomain c' = localDomain c \<and>
         httpBasicAuth c' = httpBasicAuth c \<and>
         nginxConfigTemplate c' = nginxConfigTemplate c \<and>
         containerHttpPort c' = containerHttpPort c \<and>
         staticWebRoot c' =
           Some (nginxStaticRootDir cc @ nginxDomainSpecificHtmlDir cc @ ''/'' @ publicDomain c) \<and>
         customErrorPagesDirectory c' = Some (nginxStaticRootDir cc @ nginxDefaultHtmlDir cc))"
  using assms
  by (simp add: appServerBlocks_def Let_def renderedServer_def setAuthPath_def prepareServer_def)

theorem custom_domain_witness:
  "staticWebRoot (appServerBlocks (exampleStore []) ''t'' True ''example.com'' (''foo'', fooApp) ! 1)
     = Some [] \<and>
   staticWebRoot
     (renderedServer exampleConstants exampleCollaborators ''/conf.d/captain''
        (appServerBlocks (exampleStore []) ''t'' True ''example.com'' (''foo'', fooApp) ! 1))
     = Some ''/usr/share/nginx/domains/www.foo.org''"
proof -
  have 1: "\<not> notExposeAsWebApp fooApp"
    by (simp add: fooApp_def)
  have 2: "customDomain fooApp =
             Some [\<lparr>ICustomDomain.publicDomain = ''www.foo.org'', ICustomDomain.hasSsl = False\<rparr>]"
    by (simp add: fooApp_def)
  have 3: "0 < length [\<lparr>ICustomDomain.publicDomain = ''www.foo.org'', ICustomDomain.hasSsl = False\<rparr>]"
    by simp
  from custom_domain_descriptor
    [OF 1 2 3, of "exampleStore []" "''t''" True "''example.com''" "''foo''"
       exampleConstants exampleCollaborators "''/conf.d/captain''"]
  show ?thesis
    by (simp add: Let_def exampleConstants_def)
qed

text \<open>
  The claim as written fails on \<open>foo\<close>: the descriptor of its custom domain reaches the
  template with a static root and an error pages directory that are not empty.
\<close>

theorem custom_domain_counterexample:
  "publicDomain (getServerList (exampleStore [(''foo'', fooApp)]) ! 1) = ''www.foo.org'' \<and>
   staticWebRoot
     (renderedServer exampleConstants exampleCollaborators
        (configFilePathBase exampleConstants (exampleStore [(''foo'', fooApp)]))
        (getServerList (exampleStore [(''foo'', fooApp)]) ! 1))
     = Some ''/usr/share/nginx/domains/www.foo.org'' \<and>
   customErrorPagesDirectory
     (renderedServer exampleConstants exampleCollaborators
        (configFilePathBase exampleConstants (exampleStore [(''foo'', fooApp)]))
        (getServerList (exampleStore [(''foo'', fooApp)]) ! 1))
     = Some ''/usr/share/nginx/default''"
  by (simp add: server_list_defs example_defs render_defs)

subsection \<open>The file system and the swap\<close>

lemma thenE_Inr:
  "thenE m f s = (Inr y, s') \<longleftrightarrow> (\<exists>x s1. m s = (Inr x, s1) \<and> f x s1 = (Inr y, s'))"
  by (auto simp: thenE_def split: prod.splits sum.splits)

lemma thenE_Inl:
  "thenE m f s = (Inl e, s') \<longleftrightarrow>
     (m s = (Inl e, s') \<or> (\<exists>x s1. m s = (Inr x, s1) \<and> f x s1 = (Inl e, s')))"
  by (auto simp: thenE_def split: prod.splits sum.splits)

lemma fsCall_Inr:
  "fsCall c w = (Inr u, w') \<longleftrightarrow>
     (\<not> faults w (clock w) \<and>
      (\<exists>fs'. applyCall c (files w) = Some fs' \<and>
         w' = w\<lparr>clock := Suc (clock w), trace := trace w @ [c], files := fs'\<rparr>))"
  by (auto simp: fsCall_def Let_def split: option.splits)

lemma fsCall_Inl:
  "fsCall c w = (Inl e, w') \<longleftrightarrow>
     (e = FileSystemError c \<and> w' = w\<lparr>clock := Suc (clock w), trace := trace w @ [c]\<rparr> \<and>
      (if faults w (clock w) then True else applyCall c (files w) = None))"
  by (auto simp: fsCall_def Let_def split: option.splits)

lemma paths_distinct [simp]:
  "FUTURE b \<noteq> BACKUP b" "FUTURE b \<noteq> CONFIG b" "BACKUP b \<noteq> CONFIG b"
  "BACKUP b \<noteq> FUTURE b" "CONFIG b \<noteq> FUTURE b" "CONFIG b \<noteq> BACKUP b"
  by (simp_all add: FUTURE_def BACKUP_def CONFIG_def)

lemma applyCall_simps [simp]:
  "applyCall (OutputFile p d) fs = Some (fs(p \<mapsto> d))"
  "applyCall (Remove p) fs = Some (fs(p := None))"
  "applyCall (EnsureFile p) fs = Some (if fs p = None then fs(p \<mapsto> []) else fs)"
  "applyCall (RenameSync p p') fs =
     (case fs p of None \<Rightarrow> None | Some d \<Rightarrow> Some ((fs(p := None))(p' \<mapsto> d)))"
  by (auto simp: applyCall_def split: option.splits)

lemma thenE_unit_Inl:
  "thenE m (\<lambda>_. g) s = (Inl e, s') \<longleftrightarrow>
     (m s = (Inl e, s') \<or> (\<exists>s1. m s = (Inr (), s1) \<and> g s1 = (Inl e, s')))"
  by (auto simp: thenE_def split: prod.splits sum.splits)

lemma fsCall_InrD:
  assumes "fsCall c w = (Inr u, w')"
  shows "trace w' = trace w @ [c]" and "Some (files w') = applyCall c (files w)"
    and "clock w' = Suc (clock w)" and "faults w' = faults w" and "\<not> faults w (clock w)"
  using assms by (auto simp: fsCall_Inr)

lemma fsCall_InlD:
  assumes "fsCall c w = (Inl e, w')"
  shows "e = FileSystemError c" and "trace w' = trace w @ [c]" and "files w' = files w"
    and "clock w' = Suc (clock w)" and "faults w' = faults w"
  using assms by (auto simp: fsCall_Inl)

lemma thenE_unit_Inr:
  "thenE m (\<lambda>_. g) s = (Inr y, s') \<longleftrightarrow> (\<exists>s1. m s = (Inr (), s1) \<and> g s1 = (Inr y, s'))"
  by (auto simp: thenE_def split: prod.splits sum.splits)

lemma swap_ok_cases:
  assumes "swapConfigFile base content w = (Inr u, w')"
  obtains w1 w2 w3 w4 where "fsCall (OutputFile (FUTURE base) content) w = (Inr (), w1)"
      "fsCall (Remove (BACKUP base)) w1 = (Inr (), w2)"
      "fsCall (EnsureFile (CONFIG base)) w2 = (Inr (), w3)"
      "fsCall (RenameSync (CONFIG base) (BACKUP base)) w3 = (Inr (), w4)"
      "fsCall (RenameSync (FUTURE base) (CONFIG base)) w4 = (Inr (), w')"
  using assms unfolding swapConfigFile_def thenE_unit_Inr by auto

lemma swap_ok:
  assumes "swapConfigFile base content w = (Inr u, w')"
  shows "files w' = (files w)(FUTURE base := None,
            BACKUP base \<mapsto> (case files w (CONFIG base) of None \<Rightarrow> [] | Some old \<Rightarrow> old),
            CONFIG base \<mapsto> content)"
    and "trace w' = trace w @ swapCalls base content"
    and "clock w' = clock w + 5" and "faults w' = faults w"
proof -
  from assms obtain w1 w2 w3 w4 where
    s: "fsCall (OutputFile (FUTURE base) content) w = (Inr (), w1)"
      "fsCall (Remove (BACKUP base)) w1 = (Inr (), w2)"
      "fsCall (EnsureFile (CONFIG base)) w2 = (Inr (), w3)"
      "fsCall (RenameSync (CONFIG base) (BACKUP base)) w3 = (Inr (), w4)"
      "fsCall (RenameSync (FUTURE base) (CONFIG base)) w4 = (Inr (), w')"
    by (rule swap_ok_cases)
  note d = fsCall_InrD[OF s(1)] fsCall_InrD[OF s(2)] fsCall_InrD[OF s(3)] fsCall_InrD[OF s(4)]
    fsCall_InrD[OF s(5)]
  show "trace w' = trace w @ swapCalls base content"
    using d by (simp add: swapCalls_def)
  show "clock w' = clock w + 5" using d by simp
  show "faults w' = faults w" using d by simp
  have f1: "files w1 = (files w)(FUTURE base \<mapsto> content)"
    using fsCall_InrD(2)[OF s(1)] by simp
  have f2: "files w2 = (files w1)(BACKUP base := None)"
    using fsCall_InrD(2)[OF s(2)] by simp
  have f3: "files w3 = (files w2)(CONFIG base \<mapsto>
      (case files w (CONFIG base) of None \<Rightarrow> [] | Some old \<Rightarrow> old))"
    using fsCall_InrD(2)[OF s(3)] by (cases "files w (CONFIG base)") (auto simp: f1 f2)
  have f4: "files w4 = ((files w3)(CONFIG base := None))(BACKUP base \<mapsto>
      (case files w (CONFIG base) of None \<Rightarrow> [] | Some old \<Rightarrow> old))"
    using fsCall_InrD(2)[OF s(4)] by (simp add: f3)
  have f5: "files w' = ((files w4)(FUTURE base := None))(CONFIG base \<mapsto> content)"
    using fsCall_InrD(2)[OF s(5)] by (simp add: f4 f3 f2 f1)
  show "files w' = (files w)(FUTURE base := None,
            BACKUP base \<mapsto> (case files w (CONFIG base) of None \<Rightarrow> [] | Some old \<Rightarrow> old),
            CONFIG base \<mapsto> content)"
    unfolding f5 f4 f3 f2 f1 by (auto simp: fun_eq_iff)
qed

lemma failing_step_cases:
  assumes "swapConfigFile base content w = (Inl e, w')"
  obtains
    (k0) "fsCall (OutputFile (FUTURE base) content) w = (Inl e, w')"
  | (k1) w1 where "fsCall (OutputFile (FUTURE base) content) w = (Inr (), w1)"
      "fsCall (Remove (BACKUP base)) w1 = (Inl e, w')"
  | (k2) w1 w2 where "fsCall (OutputFile (FUTURE base) content) w = (Inr (), w1)"
      "fsCall (Remove (BACKUP base)) w1 = (Inr (), w2)"
      "fsCall (EnsureFile (CONFIG base)) w2 = (Inl e, w')"
  | (k3) w1 w2 w3 where "fsCall (OutputFile (FUTURE base) content) w = (Inr (), w1)"
      "fsCall (Remove (BACKUP base)) w1 = (Inr (), w2)"
      "fsCall (EnsureFile (CONFIG base)) w2 = (Inr (), w3)"
      "fsCall (RenameSync (CONFIG base) (BACKUP base)) w3 = (Inl e, w')"
  | (k4) w1 w2 w3 w4 where "fsCall (OutputFile (FUTURE base) content) w = (Inr (), w1)"
      "fsCall (Remove (BACKUP base)) w1 = (Inr (), w2)"
      "fsCall (EnsureFile (CONFIG base)) w2 = (Inr (), w3)"
      "fsCall (RenameSync (CONFIG base) (BACKUP base)) w3 = (Inr (), w4)"
      "fsCall (RenameSync (FUTURE base) (CONFIG base)) w4 = (Inl e, w')"
  using assms unfolding swapConfigFile_def thenE_unit_Inl by blast

text \<open>
  C4, as the code has it. A swap that fails stops at the call that failed: the trace ends
  with that call, nothing is retried and no later call is made. What is left of the
  backup depends on the call: when writing \<^verbatim>\<open>.fut\<close> or removing \<^verbatim>\<open>.bak\<close> failed, the backup is
  what it was; when \<^verbatim>\<open>ensureFile\<close> or the first rename failed, the backup has been removed
  and there is none; when the second rename failed, the backup holds what the
  configuration held before (nothing, if there was no configuration).
\<close>

theorem swap_failure:
  assumes "swapConfigFile base content w = (Inl e, w')"
  shows "\<exists>k<5. e = FileSystemError (swapCalls base content ! k) \<and>
           trace w' = trace w @ take (Suc k) (swapCalls base content) \<and>
           files w' (BACKUP base) =
             (if k \<le> 1 then files w (BACKUP base)
              else if k \<le> 3 then None
              else Some (case files w (CONFIG base) of None \<Rightarrow> [] | Some prior \<Rightarrow> prior))"
  using assms
proof (cases rule: failing_step_cases)
  case k0
  from fsCall_InlD[OF k0] show ?thesis
    by (intro exI[of _ 0]) (simp add: swapCalls_def)
next
  case (k1 w1)
  from fsCall_InrD[OF k1(1)] fsCall_InlD[OF k1(2)] show ?thesis
    by (intro exI[of _ 1]) (auto simp: swapCalls_def)
next
  case (k2 w1 w2)
  from fsCall_InrD[OF k2(1)] fsCall_InrD[OF k2(2)] fsCall_InlD[OF k2(3)] show ?thesis
    by (intro exI[of _ 2]) (auto simp: swapCalls_def eval_nat_numeral)
next
  case (k3 w1 w2 w3)
  from fsCall_InrD[OF k3(1)] fsCall_InrD[OF k3(2)] fsCall_InrD[OF k3(3)] fsCall_InlD[OF k3(4)]
  show ?thesis
    by (intro exI[of _ 3]) (auto simp: swapCalls_def eval_nat_numeral split: if_splits)
next
  case (k4 w1 w2 w3 w4)
  have f1: "files w1 = (files w)(FUTURE base \<mapsto> content)"
    using fsCall_InrD(2)[OF k4(1)] by simp
  have f2: "files w2 = (files w1)(BACKUP base := None)"
    using fsCall_InrD(2)[OF k4(2)] by simp
  have c2: "files w2 (CONFIG base) = files w (CONFIG base)"
    by (simp add: f1 f2)
  have f3: "files w3 (CONFIG base) =
      Some (case files w (CONFIG base) of None \<Rightarrow> [] | Some prior \<Rightarrow> prior)"
    using fsCall_InrD(2)[OF k4(3)] c2 by (cases "files w (CONFIG base)") auto
  have f4: "files w4 (BACKUP base) =
      Some (case files w (CONFIG base) of None \<Rightarrow> [] | Some prior \<Rightarrow> prior)"
    using fsCall_InrD(2)[OF k4(4)] f3 by auto
  have t: "trace w' = trace w @ swapCalls base content"
    using fsCall_InrD(1)[OF k4(1)] fsCall_InrD(1)[OF k4(2)] fsCall_InrD(1)[OF k4(3)]
      fsCall_InrD(1)[OF k4(4)] fsCall_InlD(2)[OF k4(5)]
    by (simp add: swapCalls_def)
  show ?thesis
    using f4 t fsCall_InlD(1,3)[OF k4(5)]
    by (intro exI[of _ 4]) (simp add: swapCalls_def)
qed

text \<open>On the example disk, with its third call failing.\<close>

theorem swap_failure_witness:
  "\<exists>k<5. FileSystemError (EnsureFile ''/captain/generated/nginx/conf.d/captain.conf'') =
            FileSystemError (swapCalls ''/captain/generated/nginx/conf.d/captain'' ''new'' ! k) \<and>
          trace (snd (swapConfigFile ''/captain/generated/nginx/conf.d/captain'' ''new''
                        (exampleDisk (\<lambda>n. n = 2)))) =
            trace (exampleDisk (\<lambda>n. n = 2)) @
              take (Suc k) (swapCalls ''/captain/generated/nginx/conf.d/captain'' ''new'') \<and>
          files (snd (swapConfigFile ''/captain/generated/nginx/conf.d/captain'' ''new''
                        (exampleDisk (\<lambda>n. n = 2))))
            (BACKUP ''/captain/generated/nginx/conf.d/captain'') =
            (if k \<le> 1
             then files (exampleDisk (\<lambda>n. n = 2)) (BACKUP ''/captain/generated/nginx/conf.d/captain'')
             else if k \<le> 3 then None
             else Some (case files (exampleDisk (\<lambda>n. n = 2))
                               (CONFIG ''/captain/generated/nginx/conf.d/captain'') of
                          None \<Rightarrow> [] | Some prior \<Rightarrow> prior))"
proof (rule swap_failure)
  show "swapConfigFile ''/captain/generated/nginx/conf.d/captain'' ''new''
          (exampleDisk (\<lambda>n. n = 2)) =
        (Inl (FileSystemError (EnsureFile ''/captain/generated/nginx/conf.d/captain.conf'')),
         snd (swapConfigFile ''/captain/generated/nginx/conf.d/captain'' ''new''
                (exampleDisk (\<lambda>n. n = 2))))"
    by (simp add: run_defs)
qed

text \<open>
  The claim C4 as written fails when the third call of the swap, \<^verbatim>\<open>ensureFile\<close>, fails: the
  backup that was on the disk is gone and nothing has replaced it.
\<close>

theorem swap_failure_counterexample:
  "files (exampleDisk (\<lambda>n. n = 2)) ''/captain/generated/nginx/conf.d/captain.bak''
     = Some ''previous'' \<and>
   fst (swapConfigFile ''/captain/generated/nginx/conf.d/captain'' ''new''
          (exampleDisk (\<lambda>n. n = 2)))
     = Inl (FileSystemError (EnsureFile ''/captain/generated/nginx/conf.d/captain.conf'')) \<and>
   files (snd (swapConfigFile ''/captain/generated/nginx/conf.d/captain'' ''new''
                 (exampleDisk (\<lambda>n. n = 2))))
     ''/captain/generated/nginx/conf.d/captain.bak''
     = None"
  by (simp add: run_defs)

subsection \<open>Rendering and credentials files\<close>

lemma auth_path_eq [simp]:
  "pathOfAuthInHost base s = pathOfAuthInHost base s' \<longleftrightarrow> publicDomain s = publicDomain s'"
  by (simp add: pathOfAuthInHost_def)

lemma auth_path_not_config [simp]:
  "pathOfAuthInHost base s \<noteq> CONFIG base" "pathOfAuthInHost base s \<noteq> BACKUP base"
  "pathOfAuthInHost base s \<noteq> FUTURE base"
  by (simp_all add: pathOfAuthInHost_def CONFIG_def BACKUP_def FUTURE_def)

lemma renderedServer_fields [simp]:
  "httpBasicAuth (renderedServer cc cm base s) = httpBasicAuth s"
  "publicDomain (renderedServer cc cm base s) = publicDomain s"
  by (simp_all add: renderedServer_def setAuthPath_def prepareServer_def)

lemma filter_rendered:
  "filter (\<lambda>s. httpBasicAuth s \<noteq> []) (map (renderedServer cc cm base) servers) =
   map (renderedServer cc cm base) (filter (\<lambda>s. httpBasicAuth s \<noteq> []) servers)"
  by (induction servers) simp_all

text \<open>The writes that end one after the other.\<close>

lemma set_removeAt:
  assumes "k < length xs"
  shows "set xs = insert (xs ! k) (set (removeAt k xs))"
proof -
  have "xs = take k xs @ xs ! k # drop (Suc k) xs"
    using assms by (rule id_take_nth_drop)
  then have "set xs = set (take k xs @ xs ! k # drop (Suc k) xs)"
    by (rule arg_cong)
  then show ?thesis
    by (simp add: removeAt_def)
qed

lemma length_removeAt: "k < length xs \<Longrightarrow> Suc (length (removeAt k xs)) = length xs"
  by (auto simp: removeAt_def)

text \<open>One write ends: the three ways in which the stage goes on.\<close>

lemma completeWrites_cases:
  assumes "completeWrites cm base (x # xs) content w = (r, w')"
  obtains
    (failed) y rest where "y \<in> set (x # xs)" "snd y"
      "r = Inl (FileSystemError (authWrite base (fst y)))"
      "files w' = files w" "trace w' = trace w" "clock w' = clock w" "faults w' = faults w"
      "inFlight w' = inFlight w @
         map (\<lambda>y. (pathOfAuthInHost base (fst y), httpBasicAuth (fst y)))
           (filter (\<lambda>y. \<not> snd y) rest)"
      "set (x # xs) = insert y (set rest)"
  | (threw) y rest e where "y \<in> set (x # xs)" "\<not> snd y" "renderOne cm (fst y) = Inl e"
      "r = Inl e"
      "files w' = (files w)(pathOfAuthInHost base (fst y) \<mapsto> httpBasicAuth (fst y))"
      "trace w' = trace w" "clock w' = clock w" "faults w' = faults w"
      "inFlight w' = inFlight w @
         map (\<lambda>y. (pathOfAuthInHost base (fst y), httpBasicAuth (fst y)))
           (filter (\<lambda>y. \<not> snd y) rest)"
      "set (x # xs) = insert y (set rest)"
  | (rendered) y rest rendered w2 where "y \<in> set (x # xs)" "\<not> snd y"
      "renderOne cm (fst y) = Inr rendered"
      "files w2 = (files w)(pathOfAuthInHost base (fst y) \<mapsto> httpBasicAuth (fst y))"
      "trace w2 = trace w" "clock w2 = clock w" "faults w2 = faults w"
      "inFlight w2 = inFlight w"
      "set (x # xs) = insert y (set rest)"
      "length rest = length xs"
      "completeWrites cm base rest (content @ rendered) w2 = (r, w')"
proof -
  let ?k = "pick w (picks w) mod length (x # xs)"
  let ?y = "(x # xs) ! ?k"
  let ?rest = "removeAt ?k (x # xs)"
  let ?w2 = "w\<lparr>picks := Suc (picks w),
               files := (files w)(pathOfAuthInHost base (fst ?y) \<mapsto> httpBasicAuth (fst ?y))\<rparr>"
  have k: "?k < length (x # xs)" by simp
  have y: "?y \<in> set (x # xs)" using k by (rule nth_mem)
  have s: "set (x # xs) = insert ?y (set ?rest)" using k by (rule set_removeAt)
  have l: "length ?rest = length xs" using length_removeAt[OF k] by simp
  show thesis
  proof (cases "snd ?y")
    case True
    have "(r, w') = (Inl (FileSystemError (authWrite base (fst ?y))),
                     leftInFlight base ?rest (w\<lparr>picks := Suc (picks w)\<rparr>))"
      using assms True by (simp add: Let_def)
    then have "r = Inl (FileSystemError (authWrite base (fst ?y)))"
      and "w' = leftInFlight base ?rest (w\<lparr>picks := Suc (picks w)\<rparr>)"
      by simp_all
    then show thesis
      using True y s by (intro failed[where y="?y" and rest="?rest"]) (simp_all add: leftInFlight_def)
  next
    case False
    show thesis
    proof (cases "renderOne cm (fst ?y)")
      case (Inl e)
      have "(r, w') = (Inl e, leftInFlight base ?rest ?w2)"
        using assms False Inl by (simp add: Let_def)
      then have "r = Inl e" and "w' = leftInFlight base ?rest ?w2"
        by simp_all
      then show thesis
        using False Inl y s
        by (intro threw[where y="?y" and rest="?rest" and e=e]) (simp_all add: leftInFlight_def)
    next
      case (Inr rendered)
      have "completeWrites cm base ?rest (content @ rendered) ?w2 = (r, w')"
        using assms False Inr by (simp add: Let_def)
      then show thesis
        using False Inr y s l
        by (intro rendered[where y="?y" and rest="?rest" and rendered=rendered and ?w2.0="?w2"])
           simp_all
    qed
  qed
qed


lemma completeWrites_frame:
  "completeWrites cm base l content w = (r, w') \<Longrightarrow>
     trace w' = trace w \<and> clock w' = clock w \<and> faults w' = faults w"
proof (induction "length l" arbitrary: l content w)
  case 0
  then show ?case by simp
next
  case (Suc n)
  then obtain x xs where l: "l = x # xs" and n: "n = length xs"
    by (cases l) auto
  from Suc.prems[unfolded l] show ?case
  proof (cases rule: completeWrites_cases)
    case (failed y rest)
    then show ?thesis by simp
  next
    case (threw y rest e)
    then show ?thesis by simp
  next
    case (rendered y rest rendered w2)
    have "trace w' = trace w2 \<and> clock w' = clock w2 \<and> faults w' = faults w2"
      by (rule Suc.hyps(1)[OF _ rendered(11)]) (simp add: rendered(10) n)
    then show ?thesis using rendered(5-7) by simp
  qed
qed

lemma completeWrites_files:
  "completeWrites cm base l content w = (r, w') \<Longrightarrow>
     files w' p = files w p \<or>
     (\<exists>y\<in>set l. \<not> snd y \<and> p = pathOfAuthInHost base (fst y) \<and>
        files w' p = Some (httpBasicAuth (fst y)))"
proof (induction "length l" arbitrary: l content w)
  case 0
  then show ?case by simp
next
  case (Suc n)
  then obtain x xs where l: "l = x # xs" and n: "n = length xs"
    by (cases l) auto
  from Suc.prems[unfolded l] show ?case
  proof (cases rule: completeWrites_cases)
    case (failed y rest)
    then show ?thesis by simp
  next
    case (threw y rest e)
    then show ?thesis unfolding l by (cases "p = pathOfAuthInHost base (fst y)") auto
  next
    case (rendered y rest rendered w2)
    have "files w' p = files w2 p \<or>
          (\<exists>y\<in>set rest. \<not> snd y \<and> p = pathOfAuthInHost base (fst y) \<and>
             files w' p = Some (httpBasicAuth (fst y)))"
      by (rule Suc.hyps(1)[OF _ rendered(11)]) (simp add: rendered(10) n)
    then show ?thesis
    proof
      assume "files w' p = files w2 p"
      then show ?thesis
        using rendered(1,2,4) unfolding l by (cases "p = pathOfAuthInHost base (fst y)") auto
    next
      assume "\<exists>y\<in>set rest. \<not> snd y \<and> p = pathOfAuthInHost base (fst y) \<and>
             files w' p = Some (httpBasicAuth (fst y))"
      then show ?thesis unfolding l rendered(9) by blast
    qed
  qed
qed

lemma completeWrites_Inr:
  "completeWrites cm base l content w = (Inr c, w') \<Longrightarrow> y \<in> set l \<Longrightarrow>
     \<not> snd y \<and> (\<exists>rendered. renderOne cm (fst y) = Inr rendered)"
proof (induction "length l" arbitrary: l content w)
  case 0
  then show ?case by simp
next
  case (Suc n)
  then obtain x xs where l: "l = x # xs" and n: "n = length xs"
    by (cases l) auto
  from Suc.prems(1)[unfolded l] show ?case
  proof (cases rule: completeWrites_cases)
    case (failed y' rest)
    then show ?thesis by simp
  next
    case (threw y' rest e)
    then show ?thesis by simp
  next
    case (rendered y' rest rendered w2)
    show ?thesis
    proof (cases "y = y'")
      case True
      then show ?thesis using rendered(2,3) by simp
    next
      case False
      then have "y \<in> set rest"
        using Suc.prems(2) rendered(9) unfolding l by blast
      then show ?thesis
        by (intro Suc.hyps(1)[OF _ rendered(11)]) (simp_all add: rendered(10) n)
    qed
  qed
qed

lemma completeWrites_Inl:
  "completeWrites cm base l content w = (Inl e, w') \<Longrightarrow>
     \<exists>y\<in>set l. (snd y \<and> e = FileSystemError (authWrite base (fst y))) \<or>
                (\<not> snd y \<and> renderOne cm (fst y) = Inl e)"
proof (induction "length l" arbitrary: l content w)
  case 0
  then show ?case by simp
next
  case (Suc n)
  then obtain x xs where l: "l = x # xs" and n: "n = length xs"
    by (cases l) auto
  from Suc.prems(1)[unfolded l] show ?case
  proof (cases rule: completeWrites_cases)
    case (failed y rest)
    then show ?thesis unfolding l by blast
  next
    case (threw y rest e')
    then show ?thesis unfolding l by blast
  next
    case (rendered y rest rendered w2)
    have "\<exists>y\<in>set rest. (snd y \<and> e = FileSystemError (authWrite base (fst y))) \<or>
                (\<not> snd y \<and> renderOne cm (fst y) = Inl e)"
      by (rule Suc.hyps(1)[OF _ rendered(11)]) (simp add: rendered(10) n)
    then show ?thesis unfolding l rendered(9) by blast
  qed
qed

lemma completeWrites_inFlight:
  "completeWrites cm base l content w = (r, w') \<Longrightarrow> x \<in> set (inFlight w') \<Longrightarrow>
     x \<in> set (inFlight w) \<or>
     (\<exists>y\<in>set l. \<not> snd y \<and> x = (pathOfAuthInHost base (fst y), httpBasicAuth (fst y)))"
proof (induction "length l" arbitrary: l content w)
  case 0
  then show ?case by simp
next
  case (Suc n)
  then obtain z zs where l: "l = z # zs" and n: "n = length zs"
    by (cases l) auto
  from Suc.prems(1)[unfolded l] show ?case
  proof (cases rule: completeWrites_cases)
    case (failed y rest)
    then show ?thesis using Suc.prems(2) unfolding l by auto
  next
    case (threw y rest e')
    then show ?thesis using Suc.prems(2) unfolding l by auto
  next
    case (rendered y rest rendered w2)
    have "x \<in> set (inFlight w2) \<or>
     (\<exists>y\<in>set rest. \<not> snd y \<and> x = (pathOfAuthInHost base (fst y), httpBasicAuth (fst y)))"
      by (rule Suc.hyps(1)[OF _ rendered(11) Suc.prems(2)]) (simp add: rendered(10) n)
    then show ?thesis unfolding l rendered(8,9) by blast
  qed
qed

text \<open>
  A write that does not fail is on the disk or in flight when the stage ends, as long as
  every write of the same file writes the same content.
\<close>

lemma completeWrites_written:
  assumes "completeWrites cm base l content w = (r, w')"
    and "\<forall>y\<in>set l. pathOfAuthInHost base (fst y) = p \<longrightarrow> httpBasicAuth (fst y) = d"
    and "files w p = Some d \<or> (\<exists>t\<in>set l. \<not> snd t \<and> pathOfAuthInHost base (fst t) = p) \<or>
         (p, d) \<in> set (inFlight w)"
  shows "files w' p = Some d \<or> (p, d) \<in> set (inFlight w')"
  using assms
proof (induction "length l" arbitrary: l content w)
  case 0
  then show ?case by simp
next
  case (Suc n)
  then obtain x xs where l: "l = x # xs" and n: "n = length xs"
    by (cases l) auto
  have same: "\<And>t. t \<in> set (x # xs) \<Longrightarrow> pathOfAuthInHost base (fst t) = p \<Longrightarrow> httpBasicAuth (fst t) = d"
    using Suc.prems(2) unfolding l by blast
  consider (on_disk) "files w p = Some d"
    | (requested) t where "t \<in> set (x # xs)" "\<not> snd t" "pathOfAuthInHost base (fst t) = p"
    | (in_flight) "(p, d) \<in> set (inFlight w)"
    using Suc.prems(3) unfolding l by blast
  note start = this
  from Suc.prems(1)[unfolded l] show ?case
  proof (cases rule: completeWrites_cases)
    case (failed y rest)
    have left: "\<And>t. t \<in> set rest \<Longrightarrow> \<not> snd t \<Longrightarrow>
                 (pathOfAuthInHost base (fst t), httpBasicAuth (fst t)) \<in> set (inFlight w')"
      unfolding failed(8) by simp
    from start show ?thesis
    proof cases
      case on_disk
      then show ?thesis using failed(4) by simp
    next
      case (requested t)
      have "t \<noteq> y" using requested(2) failed(2) by blast
      then have "t \<in> set rest" using requested(1) unfolding failed(9) by blast
      then have "(pathOfAuthInHost base (fst t), httpBasicAuth (fst t)) \<in> set (inFlight w')"
        using requested(2) by (rule left)
      then show ?thesis using same[OF requested(1,3)] requested(3) by simp
    next
      case in_flight
      then show ?thesis unfolding failed(8) by simp
    qed
  next
    case (threw y rest e)
    have left: "\<And>t. t \<in> set rest \<Longrightarrow> \<not> snd t \<Longrightarrow>
                 (pathOfAuthInHost base (fst t), httpBasicAuth (fst t)) \<in> set (inFlight w')"
      unfolding threw(9) by simp
    show ?thesis
    proof (cases "pathOfAuthInHost base (fst y) = p")
      case True
      then show ?thesis using same[OF threw(1) True] threw(5) by simp
    next
      case False
      from start show ?thesis
      proof cases
        case on_disk
        then show ?thesis using threw(5) False by simp
      next
        case (requested t)
        have "t \<noteq> y" using requested(3) False by blast
        then have "t \<in> set rest" using requested(1) unfolding threw(10) by blast
        then have "(pathOfAuthInHost base (fst t), httpBasicAuth (fst t)) \<in> set (inFlight w')"
          using requested(2) by (rule left)
        then show ?thesis using same[OF requested(1,3)] requested(3) by simp
      next
        case in_flight
        then show ?thesis unfolding threw(9) by simp
      qed
    qed
  next
    case (rendered y rest rendered w2)
    have sub: "set rest \<subseteq> set (x # xs)"
      unfolding rendered(9) by blast
    have s: "\<forall>y\<in>set rest. pathOfAuthInHost base (fst y) = p \<longrightarrow> httpBasicAuth (fst y) = d"
      using same sub by blast
    have "files w2 p = Some d \<or> (\<exists>t\<in>set rest. \<not> snd t \<and> pathOfAuthInHost base (fst t) = p) \<or>
         (p, d) \<in> set (inFlight w2)"
    proof (cases "pathOfAuthInHost base (fst y) = p")
      case True
      then show ?thesis using same[OF rendered(1) True] rendered(4) by simp
    next
      case False
      from start show ?thesis
      proof cases
        case on_disk
        then show ?thesis using rendered(4) False by simp
      next
        case (requested t)
        have "t \<noteq> y" using requested(3) False by blast
        then have "t \<in> set rest" using requested(1) unfolding rendered(9) by blast
        then show ?thesis using requested(2,3) by blast
      next
        case in_flight
        then show ?thesis unfolding rendered(8) by simp
      qed
    qed
    then show ?thesis
      by (intro Suc.hyps(1)[OF _ rendered(11) s]) (simp_all add: rendered(10) n)
  qed
qed

text \<open>When all the writes in flight have ended, each file holds what was written to it.\<close>

lemma writeLanded_all:
  assumes "\<forall>x\<in>set (inFlight w). fst x = p \<longrightarrow> snd x = d"
    and "files w p = Some d \<or> (p, d) \<in> set (inFlight w)"
  shows "files ((writeLanded ^^ length (inFlight w)) w) p = Some d"
  using assms
proof (induction "length (inFlight w)" arbitrary: w)
  case 0
  then show ?case by simp
next
  case (Suc n)
  let ?k = "pick w (picks w) mod length (inFlight w)"
  let ?w = "writeLanded w"
  have ne: "inFlight w \<noteq> []" using Suc.hyps(2) by auto
  then have k: "?k < length (inFlight w)" by simp
  have i: "inFlight ?w = removeAt ?k (inFlight w)"
    and f: "files ?w = (files w)(fst (inFlight w ! ?k) \<mapsto> snd (inFlight w ! ?k))"
    using ne by (simp_all add: writeLanded_def Let_def)
  have len: "n = length (inFlight ?w)"
    using length_removeAt[OF k] Suc.hyps(2) unfolding i by simp
  have mem: "inFlight w ! ?k \<in> set (inFlight w)" using k by (rule nth_mem)
  have s: "set (inFlight w) = insert (inFlight w ! ?k) (set (inFlight ?w))"
    unfolding i using k by (rule set_removeAt)
  have a: "\<forall>x\<in>set (inFlight ?w). fst x = p \<longrightarrow> snd x = d"
    using Suc.prems(1) s by blast
  have b: "files ?w p = Some d \<or> (p, d) \<in> set (inFlight ?w)"
  proof (cases "fst (inFlight w ! ?k) = p")
    case True
    then show ?thesis using Suc.prems(1) mem f by auto
  next
    case False
    then have "inFlight w ! ?k \<noteq> (p, d)" by auto
    then have "(p, d) \<in> set (inFlight w) \<Longrightarrow> (p, d) \<in> set (inFlight ?w)"
      using s by (metis insertE)
    then show ?thesis using Suc.prems(2) False f by auto
  qed
  have "files ((writeLanded ^^ length (inFlight ?w)) ?w) p = Some d"
    using len a b by (rule Suc.hyps(1))
  then show ?case
    unfolding Suc.hyps(2)[symmetric] len[symmetric] by (simp add: funpow_swap1)
qed

lemma renderedServer_template [simp]:
  "nginxConfigTemplate (renderedServer cc cm base s) = nginxConfigTemplate s"
  by (simp add: renderedServer_def setAuthPath_def prepareServer_def)

lemma authWrite_rendered [simp]:
  "authWrite base (renderedServer cc cm base' s) = authWrite base s"
  "pathOfAuthInHost base (renderedServer cc cm base' s) = pathOfAuthInHost base s"
  by (simp_all add: authWrite_def pathOfAuthInHost_def)

lemma filter_plain_rendered:
  "filter (\<lambda>s. httpBasicAuth s = []) (map (renderedServer cc cm base) servers) =
   map (renderedServer cc cm base) (filter (\<lambda>s. httpBasicAuth s = []) servers)"
  by (induction servers) simp_all

lemma renderOne_Inl:
  "renderOne cm s = Inl e \<longleftrightarrow>
     renderServer cm (nginxConfigTemplate s) s = None \<and> e = TemplateRenderError (nginxConfigTemplate s)"
  by (auto simp: renderOne_def split: option.splits)

lemma renderOne_Inr:
  "(\<exists>rendered. renderOne cm s = Inr rendered) \<longleftrightarrow> renderServer cm (nginxConfigTemplate s) s \<noteq> None"
  by (auto simp: renderOne_def split: option.splits)

lemma renderPlain_Inl:
  "renderPlain cm ss = Inl e \<Longrightarrow> \<exists>s\<in>set ss. renderOne cm s = Inl e"
  by (induction ss arbitrary: e) (auto split: sum.splits)

lemma renderPlain_Inr:
  "renderPlain cm ss = Inr c \<Longrightarrow> s \<in> set ss \<Longrightarrow> \<exists>rendered. renderOne cm s = Inr rendered"
  by (induction ss arbitrary: c) (auto split: sum.splits)

lemma in_requested:
  "y \<in> set (zip ss (map f [0..<length ss])) \<longleftrightarrow> (\<exists>i<length ss. y = (ss ! i, f i))"
  by (auto simp: in_set_zip prod_eq_iff)

text \<open>The stage, with the prepared blocks and the requested writes spelled out.\<close>

lemma renderServers_unfold:
  "renderServers cc cm base servers w =
    (case renderPlain cm (map (renderedServer cc cm base)
                            (filter (\<lambda>s. httpBasicAuth s = []) servers)) of
       Inl e \<Rightarrow>
         (Inl e,
          leftInFlight base
            (zip (map (renderedServer cc cm base) (filter (\<lambda>s. httpBasicAuth s \<noteq> []) servers))
               (map (\<lambda>i. faults w (clock w + i))
                  [0..<length (filter (\<lambda>s. httpBasicAuth s \<noteq> []) servers)]))
            (w\<lparr>clock := clock w + length (filter (\<lambda>s. httpBasicAuth s \<noteq> []) servers),
               trace := trace w @
                 map (authWrite base) (filter (\<lambda>s. httpBasicAuth s \<noteq> []) servers)\<rparr>))
     | Inr first \<Rightarrow>
         completeWrites cm base
           (zip (map (renderedServer cc cm base) (filter (\<lambda>s. httpBasicAuth s \<noteq> []) servers))
              (map (\<lambda>i. faults w (clock w + i))
                 [0..<length (filter (\<lambda>s. httpBasicAuth s \<noteq> []) servers)]))
           first
           (w\<lparr>clock := clock w + length (filter (\<lambda>s. httpBasicAuth s \<noteq> []) servers),
              trace := trace w @
                map (authWrite base) (filter (\<lambda>s. httpBasicAuth s \<noteq> []) servers)\<rparr>))"
  by (simp add: renderServers_def requestWrites_def Let_def filter_rendered
      filter_plain_rendered o_def split: sum.splits)

lemma in_writes:
  "y \<in> set (zip (map (renderedServer cc cm base) auths)
               (map (\<lambda>i. faults w (clock w + i)) [0..<length auths])) \<longleftrightarrow>
   (\<exists>i<length auths. y = (renderedServer cc cm base (auths ! i), faults w (clock w + i)))"
  using in_requested[of y "map (renderedServer cc cm base) auths" "\<lambda>i. faults w (clock w + i)"]
  by auto

lemma renderServers_cases:
  assumes "renderServers cc cm base servers w = (r, w')"
  obtains (plain) e l where
      "renderPlain cm (map (renderedServer cc cm base)
                         (filter (\<lambda>s. httpBasicAuth s = []) servers)) = Inl e"
      "r = Inl e"
      "files w' = files w"
      "inFlight w' = inFlight w @
         map (\<lambda>y. (pathOfAuthInHost base (fst y), httpBasicAuth (fst y)))
           (filter (\<lambda>y. \<not> snd y) l)"
      "trace w' = trace w @ map (authWrite base) (filter (\<lambda>s. httpBasicAuth s \<noteq> []) servers)"
      "clock w' = clock w + length (filter (\<lambda>s. httpBasicAuth s \<noteq> []) servers)"
      "faults w' = faults w"
      "\<And>y. y \<in> set l \<longleftrightarrow>
         (\<exists>i<length (filter (\<lambda>s. httpBasicAuth s \<noteq> []) servers).
            y = (renderedServer cc cm base (filter (\<lambda>s. httpBasicAuth s \<noteq> []) servers ! i),
                 faults w (clock w + i)))"
  | (writes) first l w1 where
      "renderPlain cm (map (renderedServer cc cm base)
                         (filter (\<lambda>s. httpBasicAuth s = []) servers)) = Inr first"
      "completeWrites cm base l first w1 = (r, w')"
      "files w1 = files w"
      "inFlight w1 = inFlight w"
      "trace w1 = trace w @ map (authWrite base) (filter (\<lambda>s. httpBasicAuth s \<noteq> []) servers)"
      "clock w1 = clock w + length (filter (\<lambda>s. httpBasicAuth s \<noteq> []) servers)"
      "faults w1 = faults w"
      "\<And>y. y \<in> set l \<longleftrightarrow>
         (\<exists>i<length (filter (\<lambda>s. httpBasicAuth s \<noteq> []) servers).
            y = (renderedServer cc cm base (filter (\<lambda>s. httpBasicAuth s \<noteq> []) servers ! i),
                 faults w (clock w + i)))"
proof -
  let ?auths = "filter (\<lambda>s. httpBasicAuth s \<noteq> []) servers"
  let ?l = "zip (map (renderedServer cc cm base) ?auths)
              (map (\<lambda>i. faults w (clock w + i)) [0..<length ?auths])"
  let ?w1 = "w\<lparr>clock := clock w + length ?auths,
               trace := trace w @ map (authWrite base) ?auths\<rparr>"
  let ?plain = "renderPlain cm (map (renderedServer cc cm base)
                         (filter (\<lambda>s. httpBasicAuth s = []) servers))"
  have u: "(case ?plain of Inl e \<Rightarrow> (Inl e, leftInFlight base ?l ?w1)
           | Inr first \<Rightarrow> completeWrites cm base ?l first ?w1) = (r, w')"
    using assms unfolding renderServers_unfold .
  have m: "\<And>y. y \<in> set ?l \<longleftrightarrow>
         (\<exists>i<length ?auths. y = (renderedServer cc cm base (?auths ! i), faults w (clock w + i)))"
    by (rule in_writes)
  show thesis
  proof (cases ?plain)
    case (Inl e)
    then have "r = Inl e" and "w' = leftInFlight base ?l ?w1"
      using u by simp_all
    then show thesis
      using Inl m
      by (intro plain[where e=e and l="?l"]) (simp_all add: leftInFlight_def)
  next
    case (Inr first)
    then have "completeWrites cm base ?l first ?w1 = (r, w')"
      using u by simp
    then show thesis
      using Inr m
      by (intro writes[where first=first and l="?l" and ?w1.0="?w1"]) simp_all
  qed
qed

lemma renderServers_frame:
  assumes "renderServers cc cm base servers w = (r, w')"
  shows "trace w' = trace w @ map (authWrite base) (filter (\<lambda>s. httpBasicAuth s \<noteq> []) servers)"
    and "clock w' = clock w + length (filter (\<lambda>s. httpBasicAuth s \<noteq> []) servers)"
    and "faults w' = faults w"
  using assms
  by (cases rule: renderServers_cases; use completeWrites_frame in force)+

lemma renderServers_files:
  assumes "renderServers cc cm base servers w = (r, w')"
  shows "files w' p = files w p \<or>
     (\<exists>i<length (filter (\<lambda>s. httpBasicAuth s \<noteq> []) servers).
        \<not> faults w (clock w + i) \<and>
        p = pathOfAuthInHost base (filter (\<lambda>s. httpBasicAuth s \<noteq> []) servers ! i) \<and>
        files w' p = Some (httpBasicAuth (filter (\<lambda>s. httpBasicAuth s \<noteq> []) servers ! i)))"
  using assms
proof (cases rule: renderServers_cases)
  case (plain e l)
  then show ?thesis by simp
next
  case (writes first l w1)
  from completeWrites_files[OF writes(2), of p] show ?thesis
  proof
    assume "files w' p = files w1 p"
    then show ?thesis using writes(3) by simp
  next
    assume "\<exists>y\<in>set l. \<not> snd y \<and> p = pathOfAuthInHost base (fst y) \<and>
              files w' p = Some (httpBasicAuth (fst y))"
    then obtain y where y: "y \<in> set l" "\<not> snd y" "p = pathOfAuthInHost base (fst y)"
        "files w' p = Some (httpBasicAuth (fst y))"
      by blast
    from y(1) obtain i where "i < length (filter (\<lambda>s. httpBasicAuth s \<noteq> []) servers)"
       "y = (renderedServer cc cm base (filter (\<lambda>s. httpBasicAuth s \<noteq> []) servers ! i),
             faults w (clock w + i))"
      unfolding writes(8) by blast
    then show ?thesis using y(2,3,4) by auto
  qed
qed

lemma renderServers_inFlight:
  assumes "renderServers cc cm base servers w = (r, w')" and "x \<in> set (inFlight w')"
  shows "x \<in> set (inFlight w) \<or>
     (\<exists>i<length (filter (\<lambda>s. httpBasicAuth s \<noteq> []) servers).
        \<not> faults w (clock w + i) \<and>
        x = (pathOfAuthInHost base (filter (\<lambda>s. httpBasicAuth s \<noteq> []) servers ! i),
             httpBasicAuth (filter (\<lambda>s. httpBasicAuth s \<noteq> []) servers ! i)))"
proof -
  let ?auths = "filter (\<lambda>s. httpBasicAuth s \<noteq> []) servers"
  let ?G = ?thesis
  have a: "\<And>l. (\<And>y. y \<in> set l \<longleftrightarrow>
         (\<exists>i<length ?auths. y = (renderedServer cc cm base (?auths ! i), faults w (clock w + i))))
       \<Longrightarrow> \<exists>y\<in>set l. \<not> snd y \<and> x = (pathOfAuthInHost base (fst y), httpBasicAuth (fst y))
       \<Longrightarrow> ?G"
  proof -
    fix l
    assume m: "\<And>y. y \<in> set l \<longleftrightarrow>
         (\<exists>i<length ?auths. y = (renderedServer cc cm base (?auths ! i), faults w (clock w + i)))"
      and "\<exists>y\<in>set l. \<not> snd y \<and> x = (pathOfAuthInHost base (fst y), httpBasicAuth (fst y))"
    then obtain y where y: "y \<in> set l" "\<not> snd y"
        "x = (pathOfAuthInHost base (fst y), httpBasicAuth (fst y))"
      by blast
    from y(1) obtain i where "i < length ?auths"
        "y = (renderedServer cc cm base (?auths ! i), faults w (clock w + i))"
      unfolding m by blast
    then show ?G using y(2,3) by auto
  qed
  from assms(1) show ?thesis
  proof (cases rule: renderServers_cases)
    case (plain e l)
    from assms(2) have "x \<in> set (inFlight w) \<or>
        (\<exists>y\<in>set l. \<not> snd y \<and> x = (pathOfAuthInHost base (fst y), httpBasicAuth (fst y)))"
      unfolding plain(4) by auto
    then show ?thesis using a[of l, OF plain(8)] by blast
  next
    case (writes first l w1)
    from completeWrites_inFlight[OF writes(2) assms(2)]
    have "x \<in> set (inFlight w) \<or>
        (\<exists>y\<in>set l. \<not> snd y \<and> x = (pathOfAuthInHost base (fst y), httpBasicAuth (fst y)))"
      unfolding writes(4) .
    then show ?thesis using a[of l, OF writes(8)] by blast
  qed
qed

lemma renderServers_written:
  assumes "renderServers cc cm base servers w = (r, w')"
    and "auths = filter (\<lambda>s. httpBasicAuth s \<noteq> []) servers"
    and "i < length auths"
    and "\<not> faults w (clock w + i)"
    and "\<forall>j<length auths. j \<noteq> i \<longrightarrow> publicDomain (auths ! j) \<noteq> publicDomain (auths ! i)"
  shows "files w' (pathOfAuthInHost base (auths ! i)) = Some (httpBasicAuth (auths ! i)) \<or>
         (pathOfAuthInHost base (auths ! i), httpBasicAuth (auths ! i)) \<in> set (inFlight w')"
proof -
  let ?p = "pathOfAuthInHost base (auths ! i)"
  let ?d = "httpBasicAuth (auths ! i)"
  let ?t = "(renderedServer cc cm base (auths ! i), faults w (clock w + i))"
  have same: "\<And>l. (\<And>y. y \<in> set l \<longleftrightarrow>
         (\<exists>i<length auths. y = (renderedServer cc cm base (auths ! i), faults w (clock w + i))))
       \<Longrightarrow> \<forall>y\<in>set l. pathOfAuthInHost base (fst y) = ?p \<longrightarrow> httpBasicAuth (fst y) = ?d"
  proof (intro ballI impI)
    fix l y
    assume m: "\<And>y. y \<in> set l \<longleftrightarrow>
         (\<exists>i<length auths. y = (renderedServer cc cm base (auths ! i), faults w (clock w + i)))"
      and y: "y \<in> set l" "pathOfAuthInHost base (fst y) = ?p"
    from y(1) obtain j where j: "j < length auths"
        "y = (renderedServer cc cm base (auths ! j), faults w (clock w + j))"
      unfolding m by blast
    have "publicDomain (auths ! j) = publicDomain (auths ! i)"
      using y(2) j(2) by simp
    then have "j = i" using assms(5) j(1) by blast
    then show "httpBasicAuth (fst y) = ?d" using j(2) by simp
  qed
  from assms(1) show ?thesis
  proof (cases rule: renderServers_cases)
    case (plain e l)
    have "?t \<in> set l"
      unfolding plain(8) using assms(2,3) by blast
    then have "(pathOfAuthInHost base (fst ?t), httpBasicAuth (fst ?t)) \<in> set (inFlight w')"
      unfolding plain(4) using assms(4) by force
    then show ?thesis by simp
  next
    case (writes first l w1)
    have t: "?t \<in> set l"
      unfolding writes(8) using assms(2,3) by blast
    have "files w' ?p = Some ?d \<or> (?p, ?d) \<in> set (inFlight w')"
    proof (rule completeWrites_written[OF writes(2)])
      show "\<forall>y\<in>set l. pathOfAuthInHost base (fst y) = ?p \<longrightarrow> httpBasicAuth (fst y) = ?d"
        by (rule same) (simp add: writes(8) assms(2))
      show "files w1 ?p = Some ?d \<or> (\<exists>t\<in>set l. \<not> snd t \<and> pathOfAuthInHost base (fst t) = ?p) \<or>
              (?p, ?d) \<in> set (inFlight w1)"
        using t assms(4) by force
    qed
    then show ?thesis .
  qed
qed

lemma renderServers_Inl:
  assumes "renderServers cc cm base servers w = (Inl e, w')"
  shows "(\<exists>s\<in>set servers.
            renderServer cm (nginxConfigTemplate s) (renderedServer cc cm base s) = None \<and>
            e = TemplateRenderError (nginxConfigTemplate s)) \<or>
         (\<exists>i<length (filter (\<lambda>s. httpBasicAuth s \<noteq> []) servers).
            faults w (clock w + i) \<and>
            e = FileSystemError (authWrite base (filter (\<lambda>s. httpBasicAuth s \<noteq> []) servers ! i)))"
  using assms
proof (cases rule: renderServers_cases)
  case (plain e' l)
  from renderPlain_Inl[OF plain(1)] obtain s where
    "s \<in> set (filter (\<lambda>s. httpBasicAuth s = []) servers)"
    "renderOne cm (renderedServer cc cm base s) = Inl e'"
    by auto
  then show ?thesis using plain(2) by (auto simp: renderOne_Inl)
next
  case (writes first l w1)
  from completeWrites_Inl[OF writes(2)] obtain y where y: "y \<in> set l"
    "(snd y \<and> e = FileSystemError (authWrite base (fst y))) \<or>
     (\<not> snd y \<and> renderOne cm (fst y) = Inl e)"
    by blast
  from y(1) obtain i where i: "i < length (filter (\<lambda>s. httpBasicAuth s \<noteq> []) servers)"
     "y = (renderedServer cc cm base (filter (\<lambda>s. httpBasicAuth s \<noteq> []) servers ! i),
           faults w (clock w + i))"
    unfolding writes(8) by blast
  have s: "filter (\<lambda>s. httpBasicAuth s \<noteq> []) servers ! i \<in> set servers"
    using nth_mem[OF i(1)] by simp
  from y(2) show ?thesis
  proof
    assume "snd y \<and> e = FileSystemError (authWrite base (fst y))"
    then show ?thesis using i by auto
  next
    assume "\<not> snd y \<and> renderOne cm (fst y) = Inl e"
    then have "renderServer cm (nginxConfigTemplate (filter (\<lambda>s. httpBasicAuth s \<noteq> []) servers ! i))
                 (renderedServer cc cm base (filter (\<lambda>s. httpBasicAuth s \<noteq> []) servers ! i)) = None \<and>
               e = TemplateRenderError (nginxConfigTemplate (filter (\<lambda>s. httpBasicAuth s \<noteq> []) servers ! i))"
      using i(2) by (simp add: renderOne_Inl)
    then show ?thesis using s by blast
  qed
qed

text \<open>The stage succeeds only if no template throws and no write fails.\<close>

lemma renderServers_Inr:
  assumes "renderServers cc cm base servers w = (Inr c, w')"
  shows "\<forall>s\<in>set servers.
            renderServer cm (nginxConfigTemplate s) (renderedServer cc cm base s) \<noteq> None"
    and "\<forall>i<length (filter (\<lambda>s. httpBasicAuth s \<noteq> []) servers). \<not> faults w (clock w + i)"
proof -
  let ?auths = "filter (\<lambda>s. httpBasicAuth s \<noteq> []) servers"
  from assms obtain first l w1 where
    p: "renderPlain cm (map (renderedServer cc cm base)
                         (filter (\<lambda>s. httpBasicAuth s = []) servers)) = Inr first"
    and c: "completeWrites cm base l first w1 = (Inr c, w')"
    and m: "\<And>y. y \<in> set l \<longleftrightarrow>
         (\<exists>i<length ?auths. y = (renderedServer cc cm base (?auths ! i), faults w (clock w + i)))"
    by (cases rule: renderServers_cases) auto
  have w: "\<And>i. i < length ?auths \<Longrightarrow>
             \<not> faults w (clock w + i) \<and>
             (\<exists>rendered. renderOne cm (renderedServer cc cm base (?auths ! i)) = Inr rendered)"
  proof -
    fix i
    assume "i < length ?auths"
    then have "(renderedServer cc cm base (?auths ! i), faults w (clock w + i)) \<in> set l"
      unfolding m by blast
    from completeWrites_Inr[OF c this] show
      "\<not> faults w (clock w + i) \<and>
       (\<exists>rendered. renderOne cm (renderedServer cc cm base (?auths ! i)) = Inr rendered)"
      by simp
  qed
  show "\<forall>i<length ?auths. \<not> faults w (clock w + i)"
    using w by blast
  show "\<forall>s\<in>set servers.
            renderServer cm (nginxConfigTemplate s) (renderedServer cc cm base s) \<noteq> None"
  proof
    fix s
    assume s: "s \<in> set servers"
    have "\<exists>rendered. renderOne cm (renderedServer cc cm base s) = Inr rendered"
    proof (cases "httpBasicAuth s = []")
      case True
      then have "renderedServer cc cm base s \<in>
                   set (map (renderedServer cc cm base) (filter (\<lambda>s. httpBasicAuth s = []) servers))"
        using s by simp
      then show ?thesis by (rule renderPlain_Inr[OF p])
    next
      case False
      then have "s \<in> set ?auths" using s by simp
      then obtain i where "i < length ?auths" "?auths ! i = s"
        unfolding in_set_conv_nth by blast
      then show ?thesis using w[of i] by simp
    qed
    then show "renderServer cm (nginxConfigTemplate s) (renderedServer cc cm base s) \<noteq> None"
      using renderOne_Inr[of cm "renderedServer cc cm base s"] by simp
  qed
qed

subsection \<open>The end of a reload\<close>

lemma consume_unchanged [simp]:
  "settled (consumeQueueIfAnyInNginxReloadQueue m) = settled m"
  "disk (consumeQueueIfAnyInNginxReloadQueue m) = disk m"
  "nextPromise (consumeQueueIfAnyInNginxReloadQueue m) = nextPromise m"
  by (simp_all add: consumeQueueIfAnyInNginxReloadQueue_def Let_def)

lemma reloadFinished_outcome:
  assumes "running self = Some q"
    and "reloadPipeline cc cm (dataStore q) (disk self) = (r, w')"
  shows "settled (reloadFinished cc cm self) =
           settled self @ [(promise q, case r of Inl e \<Rightarrow> Rejected e | Inr u \<Rightarrow> Resolved)]"
    and "disk (reloadFinished cc cm self) = w'"
  using assms by (simp_all add: reloadFinished_def)

lemma reloadPipeline_render_fails:
  assumes "fsCall (Remove (FUTURE (configFilePathBase cc ds))) w = (Inr (), w1)"
    and "renderServers cc cm (configFilePathBase cc ds) (getServerList ds) w1 = (Inl e, w2)"
  shows "reloadPipeline cc cm ds w = (Inl e, w2)"
  using assms by (simp add: reloadPipeline_def thenE_def)

lemma createRootConfFile_swaps:
  assumes "createRootConfFile cc cm ds w = (Inr u, w')"
  shows "\<exists>content.
           renderRoot cm (orElse (customValue (captainConfig ds)) (byDefault (captainConfig ds)))
             (rootBindings cc cm ds) = Some content \<and>
           swapConfigFile (rootNginxConfigPath cc) content w = (Inr u, w')"
  using assms
  by (auto simp: createRootConfFile_def thenE_def Let_def split: option.splits)

lemma reloadPipeline_swaps:
  assumes "reloadPipeline cc cm ds w = (Inr u, w')"
  shows "\<exists>w1 content w2 w3.
           fsCall (Remove (FUTURE (configFilePathBase cc ds))) w = (Inr (), w1) \<and>
           renderServers cc cm (configFilePathBase cc ds) (getServerList ds) w1 = (Inr content, w2) \<and>
           swapConfigFile (configFilePathBase cc ds) content w2 = (Inr (), w3) \<and>
           createRootConfFile cc cm ds w3 = (Inr u, w')"
  using assms unfolding reloadPipeline_def thenE_Inr by auto

text \<open>
  C5. A swap that succeeds has made exactly five calls, in this order: write the new
  content to \<^verbatim>\<open>.fut\<close>, remove \<^verbatim>\<open>.bak\<close>, ensure \<^verbatim>\<open>.conf\<close>, rename \<^verbatim>\<open>.conf\<close> to \<^verbatim>\<open>.bak\<close>, rename
  \<^verbatim>\<open>.fut\<close> to \<^verbatim>\<open>.conf\<close>. Afterwards \<^verbatim>\<open>.conf\<close> holds the new content and \<^verbatim>\<open>.bak\<close> holds what
  \<^verbatim>\<open>.conf\<close> held before, the empty content if it did not exist. A successful
  \<open>createRootConfFile\<close> is such a swap at the root path with the rendered root template,
  and a successful reload is such a swap at the path of the namespace with the rendered
  server blocks, followed by \<open>createRootConfFile\<close>.
\<close>

theorem swap_protocol:
  "(swapConfigFile base content w = (Inr u, w') \<longrightarrow>
      trace w' = trace w @
        [OutputFile (base @ ''.fut'') content,
         Remove (base @ ''.bak''),
         EnsureFile (base @ ''.conf''),
         RenameSync (base @ ''.conf'') (base @ ''.bak''),
         RenameSync (base @ ''.fut'') (base @ ''.conf'')] \<and>
      files w' (base @ ''.conf'') = Some content \<and>
      files w' (base @ ''.bak'') =
        Some (case files w (base @ ''.conf'') of None \<Rightarrow> [] | Some prior \<Rightarrow> prior)) \<and>
   (createRootConfFile cc cm ds w = (Inr u, w') \<longrightarrow>
      (\<exists>rootNginxConfContent.
         renderRoot cm (orElse (customValue (captainConfig ds)) (byDefault (captainConfig ds)))
           (rootBindings cc cm ds) = Some rootNginxConfContent \<and>
         swapConfigFile (rootNginxConfigPath cc) rootNginxConfContent w = (Inr u, w'))) \<and>
   (reloadPipeline cc cm ds w = (Inr u, w') \<longrightarrow>
      (\<exists>w1 nginxConfigContent w2 w3.
         fsCall (Remove (FUTURE (configFilePathBase cc ds))) w = (Inr (), w1) \<and>
         renderServers cc cm (configFilePathBase cc ds) (getServerList ds) w1
           = (Inr nginxConfigContent, w2) \<and>
         swapConfigFile (configFilePathBase cc ds) nginxConfigContent w2 = (Inr (), w3) \<and>
         createRootConfFile cc cm ds w3 = (Inr u, w')))"
proof (intro conjI impI)
  assume a: "swapConfigFile base content w = (Inr u, w')"
  show "trace w' = trace w @
        [OutputFile (base @ ''.fut'') content,
         Remove (base @ ''.bak''),
         EnsureFile (base @ ''.conf''),
         RenameSync (base @ ''.conf'') (base @ ''.bak''),
         RenameSync (base @ ''.fut'') (base @ ''.conf'')]"
    using swap_ok(2)[OF a] by (simp add: swapCalls_def FUTURE_def BACKUP_def CONFIG_def)
  show "files w' (base @ ''.conf'') = Some content"
    using swap_ok(1)[OF a] by (simp add: FUTURE_def BACKUP_def CONFIG_def)
  show "files w' (base @ ''.bak'') =
        Some (case files w (base @ ''.conf'') of None \<Rightarrow> [] | Some prior \<Rightarrow> prior)"
    using swap_ok(1)[OF a] by (simp add: FUTURE_def BACKUP_def CONFIG_def)
next
  assume "createRootConfFile cc cm ds w = (Inr u, w')"
  then show "\<exists>rootNginxConfContent.
         renderRoot cm (orElse (customValue (captainConfig ds)) (byDefault (captainConfig ds)))
           (rootBindings cc cm ds) = Some rootNginxConfContent \<and>
         swapConfigFile (rootNginxConfigPath cc) rootNginxConfContent w = (Inr u, w')"
    by (rule createRootConfFile_swaps)
next
  assume "reloadPipeline cc cm ds w = (Inr u, w')"
  then show "\<exists>w1 nginxConfigContent w2 w3.
         fsCall (Remove (FUTURE (configFilePathBase cc ds))) w = (Inr (), w1) \<and>
         renderServers cc cm (configFilePathBase cc ds) (getServerList ds) w1
           = (Inr nginxConfigContent, w2) \<and>
         swapConfigFile (configFilePathBase cc ds) nginxConfigContent w2 = (Inr (), w3) \<and>
         createRootConfFile cc cm ds w3 = (Inr u, w')"
    by (rule reloadPipeline_swaps)
qed

text \<open>
  On the example disk, with no failing call: a swap of the configuration of the
  namespace, the root configuration, and a reload of \<open>foo\<close>.
\<close>

theorem swap_protocol_witness:
  "files (snd (swapConfigFile ''/captain/generated/nginx/conf.d/captain'' ''new''
                 (exampleDisk (\<lambda>n. False))))
     ''/captain/generated/nginx/conf.d/captain.conf'' = Some ''new'' \<and>
   files (snd (swapConfigFile ''/captain/generated/nginx/conf.d/captain'' ''new''
                 (exampleDisk (\<lambda>n. False))))
     ''/captain/generated/nginx/conf.d/captain.bak'' = Some ''current'' \<and>
   (\<exists>content.
      swapConfigFile ''/captain/generated/nginx/conf.d/captain-root'' content
        (exampleDisk (\<lambda>n. False))
      = createRootConfFile exampleConstants exampleCollaborators (exampleStore [])
          (exampleDisk (\<lambda>n. False))) \<and>
   (\<exists>w2 content w3.
      swapConfigFile ''/captain/generated/nginx/conf.d/captain'' content w2 = (Inr (), w3) \<and>
      createRootConfFile exampleConstants exampleCollaborators (exampleStore [(''foo'', fooApp)]) w3
      = reloadPipeline exampleConstants exampleCollaborators (exampleStore [(''foo'', fooApp)])
          (exampleDisk (\<lambda>n. False)))"
proof -
  let ?w = "exampleDisk (\<lambda>n. False)"
  let ?b = "''/captain/generated/nginx/conf.d/captain''"
  let ?S = "swapConfigFile ?b ''new'' ?w"
  let ?C = "createRootConfFile exampleConstants exampleCollaborators (exampleStore []) ?w"
  let ?R = "reloadPipeline exampleConstants exampleCollaborators
              (exampleStore [(''foo'', fooApp)]) ?w"
  have "fst ?S = Inr ()"
    by (simp add: run_defs)
  then have s: "?S = (Inr (), snd ?S)"
    by (simp add: prod_eq_iff)
  have "fst ?C = Inr ()"
    by (simp add: run_defs server_list_defs example_defs render_defs)
  then have c: "?C = (Inr (), snd ?C)"
    by (simp add: prod_eq_iff)
  have "fst ?R = Inr ()"
    by (simp add: run_defs server_list_defs example_defs render_defs)
  then have r: "?R = (Inr (), snd ?R)"
    by (simp add: prod_eq_iff)
  note t1 = swap_protocol [of ?b "''new''" ?w "()" "snd ?S", THEN conjunct1, rule_format, OF s]
  note t2 = swap_protocol [of _ _ ?w "()" "snd ?C" exampleConstants exampleCollaborators
      "exampleStore []", THEN conjunct2, THEN conjunct1, rule_format, OF c]
  note t3 = swap_protocol [of _ _ ?w "()" "snd ?R" exampleConstants exampleCollaborators
      "exampleStore [(''foo'', fooApp)]", THEN conjunct2, THEN conjunct2, rule_format, OF r]
  have p1: "files (snd ?S) ''/captain/generated/nginx/conf.d/captain.conf'' = Some ''new''"
    and p2: "files (snd ?S) ''/captain/generated/nginx/conf.d/captain.bak'' = Some ''current''"
    using t1 by (simp_all add: exampleDisk_def)
  have p3: "\<exists>content. swapConfigFile ''/captain/generated/nginx/conf.d/captain-root'' content ?w = ?C"
    using t2 c by (auto simp: exampleConstants_def)
  have p4: "\<exists>w2 content w3.
      swapConfigFile ''/captain/generated/nginx/conf.d/captain'' content w2 = (Inr (), w3) \<and>
      createRootConfFile exampleConstants exampleCollaborators (exampleStore [(''foo'', fooApp)]) w3
      = ?R"
    using t3 r by (auto simp: configFilePathBase_def exampleConstants_def exampleStore_def)
  show ?thesis using p1 p2 p3 p4 by blast
qed

subsection \<open>A reload that fails while rendering\<close>

text \<open>
  C10. When the reload in flight has removed \<^verbatim>\<open>.fut\<close> and then a template throws or a
  credentials file cannot be written, its promise is rejected, with the error of a block
  whose template throws or of a write that fails. The configuration file and its backup
  are what they were. The only calls made are the removal of \<^verbatim>\<open>.fut\<close> and one write for
  each block with credentials, in the order of the blocks: nothing is undone, and no
  other file has changed but to hold the credentials of one of the blocks. In whatever
  order the writes end, a write that does not fail, for a block that is the only one
  with credentials for its public domain, is on the disk or still in flight when the
  promise is rejected; and once the writes in flight have all ended the file holds the
  credentials of the block, when no write of an earlier reload was in flight for it.
\<close>

theorem failed_render_keeps_auth_files:
  assumes "running self = Some q"
    and "\<not> faults (disk self) (clock (disk self))"
    and "(\<exists>s\<in>set (getServerList (dataStore q)).
            renderServer cm (nginxConfigTemplate s)
              (renderedServer cc cm (configFilePathBase cc (dataStore q)) s) = None) \<or>
         (\<exists>i<length (filter (\<lambda>s. httpBasicAuth s \<noteq> []) (getServerList (dataStore q))).
            faults (disk self) (Suc (clock (disk self)) + i))"
  shows
    "(let base = configFilePathBase cc (dataStore q);
          servers = getServerList (dataStore q);
          auths = filter (\<lambda>s. httpBasicAuth s \<noteq> []) servers;
          self' = reloadFinished cc cm self
      in (\<exists>e. settled self' = settled self @ [(promise q, Rejected e)] \<and>
              ((\<exists>s\<in>set servers.
                  renderServer cm (nginxConfigTemplate s) (renderedServer cc cm base s) = None \<and>
                  e = TemplateRenderError (nginxConfigTemplate s)) \<or>
               (\<exists>i<length auths.
                  faults (disk self) (Suc (clock (disk self)) + i) \<and>
                  e = FileSystemError (authWrite base (auths ! i))))) \<and>
         files (disk self') (CONFIG base) = files (disk self) (CONFIG base) \<and>
         files (disk self') (BACKUP base) = files (disk self) (BACKUP base) \<and>
         trace (disk self') =
           trace (disk self) @ Remove (FUTURE base) # map (authWrite base) auths \<and>
         (\<forall>p. p \<noteq> FUTURE base \<longrightarrow>
            files (disk self') p = files (disk self) p \<or>
            (\<exists>i<length auths.
               \<not> faults (disk self) (Suc (clock (disk self)) + i) \<and>
               p = pathOfAuthInHost base (auths ! i) \<and>
               files (disk self') p = Some (httpBasicAuth (auths ! i)))) \<and>
         (\<forall>i<length auths.
            \<not> faults (disk self) (Suc (clock (disk self)) + i) \<and>
            (\<forall>j<length auths. j \<noteq> i \<longrightarrow> publicDomain (auths ! j) \<noteq> publicDomain (auths ! i)) \<longrightarrow>
            (files (disk self') (pathOfAuthInHost base (auths ! i)) = Some (httpBasicAuth (auths ! i)) \<or>
             (pathOfAuthInHost base (auths ! i), httpBasicAuth (auths ! i))
               \<in> set (inFlight (disk self'))) \<and>
            ((\<forall>x\<in>set (inFlight (disk self)). fst x \<noteq> pathOfAuthInHost base (auths ! i)) \<longrightarrow>
             files ((writeLanded ^^ length (inFlight (disk self'))) (disk self'))
               (pathOfAuthInHost base (auths ! i)) = Some (httpBasicAuth (auths ! i)))))"
proof -
  let ?base = "configFilePathBase cc (dataStore q)"
  let ?servers = "getServerList (dataStore q)"
  let ?auths = "filter (\<lambda>s. httpBasicAuth s \<noteq> []) ?servers"
  let ?w0 = "disk self"
  let ?w1 = "?w0\<lparr>clock := Suc (clock ?w0), trace := trace ?w0 @ [Remove (FUTURE ?base)],
                  files := (files ?w0)(FUTURE ?base := None)\<rparr>"
  have rm: "fsCall (Remove (FUTURE ?base)) ?w0 = (Inr (), ?w1)"
    using assms(2) by (simp add: fsCall_Inr applyCall_def)
  obtain r w2 where rs: "renderServers cc cm ?base ?servers ?w1 = (r, w2)"
    by (cases "renderServers cc cm ?base ?servers ?w1") blast
  have "\<exists>e. r = Inl e"
  proof (cases r)
    case (Inl e)
    then show ?thesis by blast
  next
    case (Inr c)
    from renderServers_Inr[OF rs[unfolded Inr]] assms(3) show ?thesis
      by auto
  qed
  then obtain e where e: "r = Inl e" by blast
  have p: "reloadPipeline cc cm (dataStore q) ?w0 = (Inl e, w2)"
    using rm rs[unfolded e] by (rule reloadPipeline_render_fails)
  note o = reloadFinished_outcome[OF assms(1) p]
  note fr = renderServers_frame[OF rs]
  have s: "settled (reloadFinished cc cm self) = settled self @ [(promise q, Rejected e)]"
    using o(1) by simp
  have er: "(\<exists>s\<in>set ?servers.
                renderServer cm (nginxConfigTemplate s) (renderedServer cc cm ?base s) = None \<and>
                e = TemplateRenderError (nginxConfigTemplate s)) \<or>
            (\<exists>i<length ?auths.
                faults ?w0 (Suc (clock ?w0) + i) \<and>
                e = FileSystemError (authWrite ?base (?auths ! i)))"
    using renderServers_Inl[OF rs[unfolded e]] by simp
  have fl: "\<And>p. p \<noteq> FUTURE ?base \<Longrightarrow>
              files w2 p = files ?w0 p \<or>
              (\<exists>i<length ?auths.
                 \<not> faults ?w0 (Suc (clock ?w0) + i) \<and>
                 p = pathOfAuthInHost ?base (?auths ! i) \<and>
                 files w2 p = Some (httpBasicAuth (?auths ! i)))"
  proof -
    fix p
    assume "p \<noteq> FUTURE ?base"
    then show "files w2 p = files ?w0 p \<or>
              (\<exists>i<length ?auths.
                 \<not> faults ?w0 (Suc (clock ?w0) + i) \<and>
                 p = pathOfAuthInHost ?base (?auths ! i) \<and>
                 files w2 p = Some (httpBasicAuth (?auths ! i)))"
      using renderServers_files[OF rs, of p] by simp
  qed
  have c: "files w2 (CONFIG ?base) = files ?w0 (CONFIG ?base)"
    using fl[of "CONFIG ?base"] auth_path_not_config(1)[of ?base] by (auto dest: sym)
  have b: "files w2 (BACKUP ?base) = files ?w0 (BACKUP ?base)"
    using fl[of "BACKUP ?base"] auth_path_not_config(2)[of ?base] by (auto dest: sym)
  have t: "trace w2 = trace ?w0 @ Remove (FUTURE ?base) # map (authWrite ?base) ?auths"
    using fr(1) by simp
  have wr: "\<And>i. i < length ?auths \<Longrightarrow> \<not> faults ?w0 (Suc (clock ?w0) + i) \<Longrightarrow>
             \<forall>j<length ?auths. j \<noteq> i \<longrightarrow> publicDomain (?auths ! j) \<noteq> publicDomain (?auths ! i) \<Longrightarrow>
             files w2 (pathOfAuthInHost ?base (?auths ! i)) = Some (httpBasicAuth (?auths ! i)) \<or>
             (pathOfAuthInHost ?base (?auths ! i), httpBasicAuth (?auths ! i)) \<in> set (inFlight w2)"
    by (rule renderServers_written[OF rs refl]) simp_all
  have ld: "\<And>i. i < length ?auths \<Longrightarrow> \<not> faults ?w0 (Suc (clock ?w0) + i) \<Longrightarrow>
             \<forall>j<length ?auths. j \<noteq> i \<longrightarrow> publicDomain (?auths ! j) \<noteq> publicDomain (?auths ! i) \<Longrightarrow>
             \<forall>x\<in>set (inFlight ?w0). fst x \<noteq> pathOfAuthInHost ?base (?auths ! i) \<Longrightarrow>
             files ((writeLanded ^^ length (inFlight w2)) w2) (pathOfAuthInHost ?base (?auths ! i))
               = Some (httpBasicAuth (?auths ! i))"
  proof -
    fix i
    assume i: "i < length ?auths" "\<not> faults ?w0 (Suc (clock ?w0) + i)"
      and u: "\<forall>j<length ?auths. j \<noteq> i \<longrightarrow> publicDomain (?auths ! j) \<noteq> publicDomain (?auths ! i)"
      and old: "\<forall>x\<in>set (inFlight ?w0). fst x \<noteq> pathOfAuthInHost ?base (?auths ! i)"
    show "files ((writeLanded ^^ length (inFlight w2)) w2) (pathOfAuthInHost ?base (?auths ! i))
               = Some (httpBasicAuth (?auths ! i))"
    proof (rule writeLanded_all)
      show "files w2 (pathOfAuthInHost ?base (?auths ! i)) = Some (httpBasicAuth (?auths ! i)) \<or>
            (pathOfAuthInHost ?base (?auths ! i), httpBasicAuth (?auths ! i)) \<in> set (inFlight w2)"
        using i u by (rule wr)
      show "\<forall>x\<in>set (inFlight w2). fst x = pathOfAuthInHost ?base (?auths ! i) \<longrightarrow>
              snd x = httpBasicAuth (?auths ! i)"
      proof (intro ballI impI)
        fix x
        assume x: "x \<in> set (inFlight w2)" "fst x = pathOfAuthInHost ?base (?auths ! i)"
        from renderServers_inFlight[OF rs x(1)] x(2) old
        obtain j where j: "j < length ?auths"
            "x = (pathOfAuthInHost ?base (?auths ! j), httpBasicAuth (?auths ! j))"
          by auto
        have "publicDomain (?auths ! j) = publicDomain (?auths ! i)"
          using x(2) j(2) by simp
        then have "j = i" using u j(1) by blast
        then show "snd x = httpBasicAuth (?auths ! i)" using j(2) by simp
      qed
    qed
  qed
  show ?thesis
    unfolding Let_def o(2)
  proof (intro conjI allI impI)
    show "\<exists>e. settled (reloadFinished cc cm self) = settled self @ [(promise q, Rejected e)] \<and>
              ((\<exists>s\<in>set ?servers.
                  renderServer cm (nginxConfigTemplate s) (renderedServer cc cm ?base s) = None \<and>
                  e = TemplateRenderError (nginxConfigTemplate s)) \<or>
               (\<exists>i<length ?auths.
                  faults ?w0 (Suc (clock ?w0) + i) \<and>
                  e = FileSystemError (authWrite ?base (?auths ! i))))"
      using s er by blast
  qed (use c b t fl wr ld in blast)+
qed

text \<open>
  Three failed reloads. In the first, \<open>qux\<close> (no credentials) renders, the write for the
  custom domain of \<open>foo\<close> ends first, then the write for \<open>bar\<close>, whose template throws: the
  write for \<open>foo\<close> itself is still in flight, and lands afterwards. In the second, the
  template of \<open>baz\<close> (no credentials) throws before any write has ended. In the third, the
  second write fails after the first has ended.
\<close>

theorem failed_render_witness:
  "settled (reloadFinished exampleConstants exampleCollaborators
      (reloading [(''qux'', quxApp), (''foo'', fooApp), (''bar'', barApp)]
         ((exampleDisk (\<lambda>n. False))\<lparr>pick := (\<lambda>n. 1)\<rparr>)))
     = [(0, Rejected (TemplateRenderError ''<% throw %>''))] \<and>
   files (disk (reloadFinished exampleConstants exampleCollaborators
      (reloading [(''qux'', quxApp), (''foo'', fooApp), (''bar'', barApp)]
         ((exampleDisk (\<lambda>n. False))\<lparr>pick := (\<lambda>n. 1)\<rparr>))))
     ''/captain/generated/nginx/conf.d/captain.conf'' = Some ''current'' \<and>
   files (disk (reloadFinished exampleConstants exampleCollaborators
      (reloading [(''qux'', quxApp), (''foo'', fooApp), (''bar'', barApp)]
         ((exampleDisk (\<lambda>n. False))\<lparr>pick := (\<lambda>n. 1)\<rparr>))))
     ''/captain/generated/nginx/conf.d/captain-www.foo.org.auth'' = Some ''u:h'' \<and>
   files (disk (reloadFinished exampleConstants exampleCollaborators
      (reloading [(''qux'', quxApp), (''foo'', fooApp), (''bar'', barApp)]
         ((exampleDisk (\<lambda>n. False))\<lparr>pick := (\<lambda>n. 1)\<rparr>))))
     ''/captain/generated/nginx/conf.d/captain-foo.example.com.auth'' = None \<and>
   inFlight (disk (reloadFinished exampleConstants exampleCollaborators
      (reloading [(''qux'', quxApp), (''foo'', fooApp), (''bar'', barApp)]
         ((exampleDisk (\<lambda>n. False))\<lparr>pick := (\<lambda>n. 1)\<rparr>))))
     = [(''/captain/generated/nginx/conf.d/captain-foo.example.com.auth'', ''u:h'')] \<and>
   files ((writeLanded ^^ 1) (disk (reloadFinished exampleConstants exampleCollaborators
      (reloading [(''qux'', quxApp), (''foo'', fooApp), (''bar'', barApp)]
         ((exampleDisk (\<lambda>n. False))\<lparr>pick := (\<lambda>n. 1)\<rparr>)))))
     ''/captain/generated/nginx/conf.d/captain-foo.example.com.auth'' = Some ''u:h'' \<and>
   settled (reloadFinished exampleConstants exampleCollaborators
      (reloading [(''foo'', fooApp), (''baz'', bazApp)] (exampleDisk (\<lambda>n. False))))
     = [(0, Rejected (TemplateRenderError ''<% throw %>''))] \<and>
   files (disk (reloadFinished exampleConstants exampleCollaborators
      (reloading [(''foo'', fooApp), (''baz'', bazApp)] (exampleDisk (\<lambda>n. False)))))
     ''/captain/generated/nginx/conf.d/captain.conf'' = Some ''current'' \<and>
   inFlight (disk (reloadFinished exampleConstants exampleCollaborators
      (reloading [(''foo'', fooApp), (''baz'', bazApp)] (exampleDisk (\<lambda>n. False)))))
     = [(''/captain/generated/nginx/conf.d/captain-foo.example.com.auth'', ''u:h''),
        (''/captain/generated/nginx/conf.d/captain-www.foo.org.auth'', ''u:h'')] \<and>
   settled (reloadFinished exampleConstants exampleCollaborators
      (reloading [(''qux'', quxApp), (''foo'', fooApp)] (exampleDisk (\<lambda>n. n = 2))))
     = [(0, Rejected (FileSystemError
          (OutputFile ''/captain/generated/nginx/conf.d/captain-www.foo.org.auth'' ''u:h'')))] \<and>
   files (disk (reloadFinished exampleConstants exampleCollaborators
      (reloading [(''qux'', quxApp), (''foo'', fooApp)] (exampleDisk (\<lambda>n. n = 2)))))
     ''/captain/generated/nginx/conf.d/captain.conf'' = Some ''current'' \<and>
   files (disk (reloadFinished exampleConstants exampleCollaborators
      (reloading [(''qux'', quxApp), (''foo'', fooApp)] (exampleDisk (\<lambda>n. n = 2)))))
     ''/captain/generated/nginx/conf.d/captain-foo.example.com.auth'' = Some ''u:h''"
proof -
  let ?cc = exampleConstants
  let ?cm = exampleCollaborators
  let ?A = "reloading [(''qux'', quxApp), (''foo'', fooApp), (''bar'', barApp)]
              ((exampleDisk (\<lambda>n. False))\<lparr>pick := (\<lambda>n. 1)\<rparr>)"
  let ?B = "reloading [(''foo'', fooApp), (''baz'', bazApp)] (exampleDisk (\<lambda>n. False))"
  let ?C = "reloading [(''qux'', quxApp), (''foo'', fooApp)] (exampleDisk (\<lambda>n. n = 2))"
  let ?qA = "\<lparr>promise = 0,
              dataStore = exampleStore [(''qux'', quxApp), (''foo'', fooApp), (''bar'', barApp)]\<rparr>"
  let ?qB = "\<lparr>promise = 0, dataStore = exampleStore [(''foo'', fooApp), (''baz'', bazApp)]\<rparr>"
  let ?qC = "\<lparr>promise = 0, dataStore = exampleStore [(''qux'', quxApp), (''foo'', fooApp)]\<rparr>"
  let ?authsA = "filter (\<lambda>s. httpBasicAuth s \<noteq> []) (getServerList (dataStore ?qA))"
  let ?baseA = "configFilePathBase ?cc (dataStore ?qA)"

  have a1: "running ?A = Some ?qA"
    by (simp add: reloading_def queue_defs)
  have a2: "\<not> faults (disk ?A) (clock (disk ?A))"
    by (simp add: reloading_def queue_defs exampleDisk_def)
  have "\<exists>s\<in>set (getServerList (dataStore ?qA)).
          renderServer ?cm (nginxConfigTemplate s)
            (renderedServer ?cc ?cm (configFilePathBase ?cc (dataStore ?qA)) s) = None"
    by (simp add: server_list_defs example_defs)
  then have a3: "(\<exists>s\<in>set (getServerList (dataStore ?qA)).
          renderServer ?cm (nginxConfigTemplate s)
            (renderedServer ?cc ?cm (configFilePathBase ?cc (dataStore ?qA)) s) = None) \<or>
       (\<exists>i<length ?authsA. faults (disk ?A) (Suc (clock (disk ?A)) + i))"
    by (rule disjI1)
  note a = failed_render_keeps_auth_files [OF a1 a2 a3, unfolded Let_def]
  have a_conf: "files (disk (reloadFinished ?cc ?cm ?A))
                  ''/captain/generated/nginx/conf.d/captain.conf'' = Some ''current''"
    using a[THEN conjunct2, THEN conjunct1]
    by (simp add: reloading_def queue_defs exampleDisk_def exampleConstants_def exampleStore_def
        configFilePathBase_def CONFIG_def)
  have len: "0 < length ?authsA"
    by (simp add: server_list_defs example_defs)
  have first: "?authsA ! 0 = getServerList (dataStore ?qA) ! 1"
    by (simp add: server_list_defs example_defs)
  have nf: "\<not> faults (disk ?A) (Suc (clock (disk ?A)) + 0)"
    by (simp add: reloading_def queue_defs exampleDisk_def)
  have uniq: "\<forall>j<length ?authsA. j \<noteq> 0 \<longrightarrow>
                publicDomain (?authsA ! j) \<noteq> publicDomain (?authsA ! 0)"
    by (auto simp: server_list_defs example_defs nth_Cons split: nat.splits)
  have old: "\<forall>x\<in>set (inFlight (disk ?A)). fst x \<noteq> pathOfAuthInHost ?baseA (?authsA ! 0)"
    by (simp add: reloading_def queue_defs exampleDisk_def)
  note a6 = a[THEN conjunct2, THEN conjunct2, THEN conjunct2, THEN conjunct2, THEN conjunct2,
              rule_format, OF len conjI[OF nf uniq]]
  have a_in: "inFlight (disk (reloadFinished ?cc ?cm ?A))
                = [(''/captain/generated/nginx/conf.d/captain-foo.example.com.auth'', ''u:h'')]"
    by (simp add: eval_defs)
  have "files ((writeLanded ^^ length (inFlight (disk (reloadFinished ?cc ?cm ?A))))
                 (disk (reloadFinished ?cc ?cm ?A)))
          (pathOfAuthInHost ?baseA (?authsA ! 0)) = Some (httpBasicAuth (?authsA ! 0))"
    using a6[THEN conjunct2] old by blast
  then have a_landed: "files ((writeLanded ^^ 1) (disk (reloadFinished ?cc ?cm ?A)))
          ''/captain/generated/nginx/conf.d/captain-foo.example.com.auth'' = Some ''u:h''"
    unfolding a_in first
    by (simp add: server_list_defs example_defs pathOfAuthInHost_def configFilePathBase_def)
  have a_set: "settled (reloadFinished ?cc ?cm ?A)
                 = [(0, Rejected (TemplateRenderError ''<% throw %>''))]"
    by (simp add: eval_defs)
  have a_www: "files (disk (reloadFinished ?cc ?cm ?A))
                 ''/captain/generated/nginx/conf.d/captain-www.foo.org.auth'' = Some ''u:h''"
    by (simp add: eval_defs)
  have a_foo: "files (disk (reloadFinished ?cc ?cm ?A))
                 ''/captain/generated/nginx/conf.d/captain-foo.example.com.auth'' = None"
    by (simp add: eval_defs)

  have b1: "running ?B = Some ?qB"
    by (simp add: reloading_def queue_defs)
  have b2: "\<not> faults (disk ?B) (clock (disk ?B))"
    by (simp add: reloading_def queue_defs exampleDisk_def)
  have "\<exists>s\<in>set (getServerList (dataStore ?qB)).
          renderServer ?cm (nginxConfigTemplate s)
            (renderedServer ?cc ?cm (configFilePathBase ?cc (dataStore ?qB)) s) = None"
    by (simp add: server_list_defs example_defs)
  then have b3: "(\<exists>s\<in>set (getServerList (dataStore ?qB)).
          renderServer ?cm (nginxConfigTemplate s)
            (renderedServer ?cc ?cm (configFilePathBase ?cc (dataStore ?qB)) s) = None) \<or>
       (\<exists>i<length (filter (\<lambda>s. httpBasicAuth s \<noteq> []) (getServerList (dataStore ?qB))).
          faults (disk ?B) (Suc (clock (disk ?B)) + i))"
    by (rule disjI1)
  note b = failed_render_keeps_auth_files [OF b1 b2 b3, unfolded Let_def]
  have b_conf: "files (disk (reloadFinished ?cc ?cm ?B))
                  ''/captain/generated/nginx/conf.d/captain.conf'' = Some ''current''"
    using b[THEN conjunct2, THEN conjunct1]
    by (simp add: reloading_def queue_defs exampleDisk_def exampleConstants_def exampleStore_def
        configFilePathBase_def CONFIG_def)
  have b_set: "settled (reloadFinished ?cc ?cm ?B)
                 = [(0, Rejected (TemplateRenderError ''<% throw %>''))]"
    by (simp add: eval_defs)
  have b_in: "inFlight (disk (reloadFinished ?cc ?cm ?B))
     = [(''/captain/generated/nginx/conf.d/captain-foo.example.com.auth'', ''u:h''),
        (''/captain/generated/nginx/conf.d/captain-www.foo.org.auth'', ''u:h'')]"
    by (simp add: eval_defs)

  have c1: "running ?C = Some ?qC"
    by (simp add: reloading_def queue_defs)
  have c2: "\<not> faults (disk ?C) (clock (disk ?C))"
    by (simp add: reloading_def queue_defs exampleDisk_def)
  have "1 < length (filter (\<lambda>s. httpBasicAuth s \<noteq> []) (getServerList (dataStore ?qC))) \<and>
        faults (disk ?C) (Suc (clock (disk ?C)) + 1)"
    by (simp add: reloading_def queue_defs exampleDisk_def server_list_defs example_defs)
  then have "\<exists>i<length (filter (\<lambda>s. httpBasicAuth s \<noteq> []) (getServerList (dataStore ?qC))).
          faults (disk ?C) (Suc (clock (disk ?C)) + i)"
    by blast
  then have c3: "(\<exists>s\<in>set (getServerList (dataStore ?qC)).
          renderServer ?cm (nginxConfigTemplate s)
            (renderedServer ?cc ?cm (configFilePathBase ?cc (dataStore ?qC)) s) = None) \<or>
       (\<exists>i<length (filter (\<lambda>s. httpBasicAuth s \<noteq> []) (getServerList (dataStore ?qC))).
          faults (disk ?C) (Suc (clock (disk ?C)) + i))"
    by (rule disjI2)
  note c = failed_render_keeps_auth_files [OF c1 c2 c3, unfolded Let_def]
  have c_conf: "files (disk (reloadFinished ?cc ?cm ?C))
                  ''/captain/generated/nginx/conf.d/captain.conf'' = Some ''current''"
    using c[THEN conjunct2, THEN conjunct1]
    by (simp add: reloading_def queue_defs exampleDisk_def exampleConstants_def exampleStore_def
        configFilePathBase_def CONFIG_def)
  have c_set: "settled (reloadFinished ?cc ?cm ?C)
     = [(0, Rejected (FileSystemError
          (OutputFile ''/captain/generated/nginx/conf.d/captain-www.foo.org.auth'' ''u:h'')))]"
    by (simp add: eval_defs)
  have c_foo: "files (disk (reloadFinished ?cc ?cm ?C))
                 ''/captain/generated/nginx/conf.d/captain-foo.example.com.auth'' = Some ''u:h''"
    by (simp add: eval_defs)
  show ?thesis
    using a_set a_conf a_www a_foo a_in a_landed b_set b_conf b_in c_set c_conf c_foo
    by (intro conjI)
qed

subsection \<open>The reload queue\<close>

lemma consume_pops:
  "requestedReloadPromises (consumeQueueIfAnyInNginxReloadQueue m) =
     butlast (requestedReloadPromises m)"
  by (simp add: consumeQueueIfAnyInNginxReloadQueue_def Let_def)

lemma consume_idle:
  assumes "\<not> reloadInProcess m" and "requestedReloadPromises m = qs @ [q]"
  shows "consumeQueueIfAnyInNginxReloadQueue m =
           m\<lparr>requestedReloadPromises := qs, reloadInProcess := True, running := Some q,
             started := started m @ [q]\<rparr>"
  using assms by (simp add: consumeQueueIfAnyInNginxReloadQueue_def Let_def)

lemma consume_empty:
  assumes "requestedReloadPromises m = []"
  shows "consumeQueueIfAnyInNginxReloadQueue m = m"
  using assms by (simp add: consumeQueueIfAnyInNginxReloadQueue_def)

lemma request_while_busy:
  assumes "reloadInProcess m" and "requestedReloadPromises m = []"
  shows "rePopulateNginxConfigFile d m = m\<lparr>nextPromise := Suc (nextPromise m)\<rparr>"
  using assms
  by (simp add: rePopulateNginxConfigFile_def consumeQueueIfAnyInNginxReloadQueue_def Let_def)

lemma requests_while_busy:
  assumes "reloadInProcess m" and "requestedReloadPromises m = []"
  shows "run cc cm m (map Request ds) = m\<lparr>nextPromise := nextPromise m + length ds\<rparr>"
  using assms
proof (induction ds arbitrary: m)
  case Nil
  then show ?case by (simp add: run_def)
next
  case (Cons d ds)
  have "run cc cm m (map Request (d # ds)) =
        run cc cm (m\<lparr>nextPromise := Suc (nextPromise m)\<rparr>) (map Request ds)"
    using request_while_busy[OF Cons.prems] by (simp add: run_def)
  also have "\<dots> = m\<lparr>nextPromise := Suc (nextPromise m)\<rparr>
                     \<lparr>nextPromise := nextPromise (m\<lparr>nextPromise := Suc (nextPromise m)\<rparr>) + length ds\<rparr>"
    by (rule Cons.IH) (use Cons.prems in simp_all)
  finally show ?case by simp
qed

lemma run_append: "run cc cm m (xs @ ys) = run cc cm (run cc cm m xs) ys"
  by (simp add: run_def)

lemma finished_when_idle:
  assumes "running m = None"
  shows "run cc cm m (replicate k Finished) = m"
  using assms by (induction k) (simp_all add: run_def reloadFinished_def)

text \<open>
  C1, on the code. One or more further requests made while the first reload is in
  process are popped and dropped: whatever their number, and however long one waits,
  one reload is started and one promise is settled, that of the first request; the
  other requests are neither pending nor running nor settled.
\<close>

theorem concurrent_requests_dropped:
  "(let m = run cc cm (newManager w) (map Request (d # ds) @ replicate (Suc k) Finished)
    in nextPromise m = Suc (length ds) \<and>
       map promise (started m) = [0] \<and>
       map fst (settled m) = [0] \<and>
       requestedReloadPromises m = [] \<and>
       running m = None \<and>
       \<not> reloadInProcess m)"
proof -
  let ?q = "\<lparr>promise = 0, dataStore = d\<rparr>"
  let ?m1 = "(newManager w)\<lparr>nextPromise := 1, reloadInProcess := True, running := Some ?q,
                started := [?q]\<rparr>"
  have first: "rePopulateNginxConfigFile d (newManager w) = ?m1"
    by (simp add: rePopulateNginxConfigFile_def consumeQueueIfAnyInNginxReloadQueue_def
        newManager_def Let_def)
  have busy: "reloadInProcess ?m1" "requestedReloadPromises ?m1 = []"
    by (simp_all add: newManager_def)
  have reqs: "run cc cm (newManager w) (map Request (d # ds)) =
              ?m1\<lparr>nextPromise := nextPromise ?m1 + length ds\<rparr>"
    using requests_while_busy[OF busy, of cc cm ds] first by (simp add: run_def)
  let ?m2 = "?m1\<lparr>nextPromise := nextPromise ?m1 + length ds\<rparr>"
  obtain r w' where p: "reloadPipeline cc cm d w = (r, w')"
    by (cases "reloadPipeline cc cm d w")
  let ?m3 = "reloadFinished cc cm ?m2"
  have m3: "nextPromise ?m3 = Suc (length ds)" "map promise (started ?m3) = [0]"
    "map fst (settled ?m3) = [0]" "requestedReloadPromises ?m3 = []" "running ?m3 = None"
    "\<not> reloadInProcess ?m3"
    using p
    by (simp_all add: reloadFinished_def consumeQueueIfAnyInNginxReloadQueue_def newManager_def)
  have "run cc cm (newManager w) (map Request (d # ds) @ replicate (Suc k) Finished) =
        run cc cm ?m3 (replicate k Finished)"
    unfolding run_append reqs by (simp add: run_def)
  also have "\<dots> = ?m3"
    by (rule finished_when_idle) (rule m3(5))
  finally show ?thesis
    unfolding Let_def using m3 by simp
qed

lemma drain_all:
  assumes "\<not> reloadInProcess m" and "running m = None" and "requestedReloadPromises m = qs"
  shows "started ((reloadFinished cc cm ^^ length qs) (consumeQueueIfAnyInNginxReloadQueue m))
           = started m @ rev qs \<and>
         map fst (settled ((reloadFinished cc cm ^^ length qs)
                            (consumeQueueIfAnyInNginxReloadQueue m)))
           = map fst (settled m) @ map promise (rev qs) \<and>
         requestedReloadPromises ((reloadFinished cc cm ^^ length qs)
                            (consumeQueueIfAnyInNginxReloadQueue m)) = [] \<and>
         running ((reloadFinished cc cm ^^ length qs)
                            (consumeQueueIfAnyInNginxReloadQueue m)) = None \<and>
         \<not> reloadInProcess ((reloadFinished cc cm ^^ length qs)
                            (consumeQueueIfAnyInNginxReloadQueue m))"
  using assms
proof (induction qs arbitrary: m rule: rev_induct)
  case Nil
  then show ?case by (simp add: consume_empty)
next
  case (snoc q qs)
  let ?m1 = "m\<lparr>requestedReloadPromises := qs, reloadInProcess := True, running := Some q,
               started := started m @ [q]\<rparr>"
  have c: "consumeQueueIfAnyInNginxReloadQueue m = ?m1"
    using snoc.prems by (simp add: consume_idle)
  obtain r w' where p: "reloadPipeline cc cm (dataStore q) (disk m) = (r, w')"
    by (cases "reloadPipeline cc cm (dataStore q) (disk m)")
  let ?m2 = "?m1\<lparr>disk := w', reloadInProcess := False, running := None,
                settled := settled m @ [(promise q, case r of Inl e \<Rightarrow> Rejected e | Inr u \<Rightarrow> Resolved)]\<rparr>"
  have f: "reloadFinished cc cm ?m1 = consumeQueueIfAnyInNginxReloadQueue ?m2"
    using p by (simp add: reloadFinished_def)
  have ih: "started ((reloadFinished cc cm ^^ length qs) (consumeQueueIfAnyInNginxReloadQueue ?m2))
           = started ?m2 @ rev qs \<and>
         map fst (settled ((reloadFinished cc cm ^^ length qs)
                            (consumeQueueIfAnyInNginxReloadQueue ?m2)))
           = map fst (settled ?m2) @ map promise (rev qs) \<and>
         requestedReloadPromises ((reloadFinished cc cm ^^ length qs)
                            (consumeQueueIfAnyInNginxReloadQueue ?m2)) = [] \<and>
         running ((reloadFinished cc cm ^^ length qs)
                            (consumeQueueIfAnyInNginxReloadQueue ?m2)) = None \<and>
         \<not> reloadInProcess ((reloadFinished cc cm ^^ length qs)
                            (consumeQueueIfAnyInNginxReloadQueue ?m2))"
    by (rule snoc.IH) simp_all
  have "(reloadFinished cc cm ^^ length (qs @ [q])) (consumeQueueIfAnyInNginxReloadQueue m) =
        (reloadFinished cc cm ^^ length qs) (consumeQueueIfAnyInNginxReloadQueue ?m2)"
    unfolding c by (simp add: funpow_swap1 f)
  then show ?case using ih by simp
qed

text \<open>
  C6. A drain attempt takes exactly one pending request, the last one pushed. From an
  idle manager, the attempt starts that request, and each time the reload in flight
  ends, resolved or rejected, the next request is taken: after as many ends as there
  were pending requests, all of them have been started and settled in the reverse of
  the order they were pushed, nothing is pending and the manager is idle.
\<close>

theorem drain_policy:
  assumes "\<not> reloadInProcess self" and "running self = None"
  shows
    "(let pending = requestedReloadPromises self;
          first = consumeQueueIfAnyInNginxReloadQueue self;
          final = (reloadFinished cc cm ^^ length pending) first
      in requestedReloadPromises first = butlast pending \<and>
         started first = started self @ (if pending = [] then [] else [last pending]) \<and>
         started final = started self @ rev pending \<and>
         map fst (settled final) = map fst (settled self) @ map promise (rev pending) \<and>
         requestedReloadPromises final = [] \<and>
         running final = None \<and>
         \<not> reloadInProcess final)"
proof -
  have a: "started (consumeQueueIfAnyInNginxReloadQueue self) =
        started self @ (if requestedReloadPromises self = [] then []
                        else [last (requestedReloadPromises self)])"
    using assms(1) by (simp add: consumeQueueIfAnyInNginxReloadQueue_def Let_def)
  show ?thesis
    unfolding Let_def
    using drain_all[OF assms refl, of cc cm] consume_pops[of self] a by simp
qed

text \<open>
  Two pending requests on a disk whose first call fails: the request pushed last is
  taken first and rejected, and the other one is then taken and resolved.
\<close>

theorem drain_policy_witness:
  "settled ((reloadFinished exampleConstants exampleCollaborators ^^ 2)
              (consumeQueueIfAnyInNginxReloadQueue twoPending))
     = [(1, Rejected (FileSystemError (Remove ''/captain/generated/nginx/conf.d/captain.fut''))),
        (0, Resolved)] \<and>
   map promise (started ((reloadFinished exampleConstants exampleCollaborators ^^ 2)
              (consumeQueueIfAnyInNginxReloadQueue twoPending))) = [1, 0] \<and>
   requestedReloadPromises ((reloadFinished exampleConstants exampleCollaborators ^^ 2)
              (consumeQueueIfAnyInNginxReloadQueue twoPending)) = [] \<and>
   \<not> reloadInProcess ((reloadFinished exampleConstants exampleCollaborators ^^ 2)
              (consumeQueueIfAnyInNginxReloadQueue twoPending))"
proof -
  have 1: "\<not> reloadInProcess twoPending" and 2: "running twoPending = None"
    and 3: "length (requestedReloadPromises twoPending) = 2"
    and 4: "map promise (rev (requestedReloadPromises twoPending)) = [1, 0]"
    and 5: "started twoPending = []"
    by (simp_all add: twoPending_def newManager_def)
  note t = drain_policy [OF 1 2, of exampleConstants exampleCollaborators, unfolded Let_def 3]
  have a: "map promise (started ((reloadFinished exampleConstants exampleCollaborators ^^ 2)
              (consumeQueueIfAnyInNginxReloadQueue twoPending))) = [1, 0]"
    using t 4 5 by (simp add: rev_map)
  have b: "requestedReloadPromises ((reloadFinished exampleConstants exampleCollaborators ^^ 2)
              (consumeQueueIfAnyInNginxReloadQueue twoPending)) = []"
    "\<not> reloadInProcess ((reloadFinished exampleConstants exampleCollaborators ^^ 2)
              (consumeQueueIfAnyInNginxReloadQueue twoPending))"
    using t by simp_all
  have c: "settled ((reloadFinished exampleConstants exampleCollaborators ^^ 2)
              (consumeQueueIfAnyInNginxReloadQueue twoPending))
     = [(1, Rejected (FileSystemError (Remove ''/captain/generated/nginx/conf.d/captain.fut''))),
        (0, Resolved)]"
    by (simp add: twoPending_def queue_defs run_defs server_list_defs example_defs render_defs
        eval_nat_numeral)
  show ?thesis using a b c by simp
qed

subsection \<open>Placing the proxy service\<close>

lemma isServiceRunningByName_D:
  assumes "isServiceRunningByName n sw = (Inr b, sw1)"
  shows "b = (services sw n \<noteq> None)" and "services sw1 = services sw"
  using assms by (auto simp: isServiceRunningByName_def called_def Let_def split: if_splits)

lemma getNodeIdByServiceName_D:
  assumes "getNodeIdByServiceName n k sw = (Inr nodeId, sw1)"
  shows "services sw n = Some nodeId" and "services sw1 = services sw"
  using assms
  by (auto simp: getNodeIdByServiceName_def called_def Let_def split: if_splits option.splits)

lemma createNginxServiceOnNode_D:
  assumes "createNginxServiceOnNode cc nodeId sw = (Inr u, sw1)"
  shows "services sw1 = (services sw)(nginxServiceName cc \<mapsto> nodeId)"
  using assms
  by (auto simp: createNginxServiceOnNode_def createServiceOnNodeId_def called_def Let_def
      split: if_splits)

lemma removeServiceByName_D:
  assumes "removeServiceByName n sw = (Inr u, sw1)"
  shows "services sw1 = (services sw)(n := None)"
  using assms by (auto simp: removeServiceByName_def called_def Let_def split: if_splits)

lemma updateService_D:
  assumes "updateService n img ms nets sw = (Inr u, sw1)"
  shows "services sw1 = services sw" and "dcalls sw1 = dcalls sw @ [UpdateService n img ms nets]"
  using assms by (auto simp: updateService_def called_def Let_def split: if_splits)

lemma init_service_ends_with_update:
  assumes "init_service cc myNodeId sw = (Inr u, sw')"
  shows "dcalls sw' \<noteq> []"
    and "last (dcalls sw') =
           UpdateService (nginxServiceName cc) (nginxImageName cc) (nginxMounts cc)
             [captainNetworkName cc]"
    and "services sw' (nginxServiceName cc) = Some myNodeId"
proof -
  from assms obtain isRunning sw1 nodeId sw2 b sw3 where
    s1: "isServiceRunningByName (nginxServiceName cc) sw = (Inr isRunning, sw1)" and
    s2: "(if isRunning then getNodeIdByServiceName (nginxServiceName cc) 0
          else thenE (createNginxServiceOnNode cc myNodeId) (\<lambda>_ sw. (Inr myNodeId, sw))) sw1
         = (Inr nodeId, sw2)" and
    s3: "(if nodeId \<noteq> myNodeId
          then thenE (removeServiceByName (nginxServiceName cc)) (\<lambda>_.
               thenE (createNginxServiceOnNode cc myNodeId) (\<lambda>_ sw. (Inr True, sw)))
          else (\<lambda>sw. (Inr True, sw))) sw2 = (Inr b, sw3)" and
    s4: "updateService (nginxServiceName cc) (nginxImageName cc) (nginxMounts cc)
           [captainNetworkName cc] sw3 = (Inr u, sw')"
    unfolding init_service_def thenE_Inr by blast
  have n2: "services sw2 (nginxServiceName cc) = Some nodeId"
  proof (cases isRunning)
    case True
    with s2 have g: "getNodeIdByServiceName (nginxServiceName cc) 0 sw1 = (Inr nodeId, sw2)"
      by simp
    show ?thesis using getNodeIdByServiceName_D[OF g] by simp
  next
    case False
    with s2 obtain x where c: "createNginxServiceOnNode cc myNodeId sw1 = (Inr x, sw2)"
      and "nodeId = myNodeId"
      by (auto simp: thenE_def split: prod.splits sum.splits)
    then show ?thesis using createNginxServiceOnNode_D[OF c] by simp
  qed
  have n3: "services sw3 (nginxServiceName cc) = Some myNodeId"
  proof (cases "nodeId = myNodeId")
    case True
    with s3 n2 show ?thesis by simp
  next
    case False
    with s3 obtain x swx where c: "createNginxServiceOnNode cc myNodeId swx = (Inr x, sw3)"
      by (auto simp: thenE_def split: prod.splits sum.splits)
    show ?thesis using createNginxServiceOnNode_D[OF c] by simp
  qed
  from updateService_D[OF s4] n3
  show "dcalls sw' \<noteq> []"
    and "last (dcalls sw') =
           UpdateService (nginxServiceName cc) (nginxImageName cc) (nginxMounts cc)
             [captainNetworkName cc]"
    and "services sw' (nginxServiceName cc) = Some myNodeId"
    by simp_all
qed

lemma init_service_migrates:
  assumes "services sw (nginxServiceName cc) = Some nodeA" and "nodeA \<noteq> myNodeId"
    and "\<forall>k<5. \<not> dfaults sw (dclock sw + k)"
  shows "fst (init_service cc myNodeId sw) = Inr ()"
    and "dcalls (snd (init_service cc myNodeId sw)) = dcalls sw @
           [IsServiceRunningByName (nginxServiceName cc),
            GetNodeIdByServiceName (nginxServiceName cc) 0,
            RemoveServiceByName (nginxServiceName cc),
            CreateServiceOnNodeId (nginxImageName cc) (nginxServiceName cc) (nginxPorts cc)
              myNodeId (30 * 1024 * 1024),
            UpdateService (nginxServiceName cc) (nginxImageName cc) (nginxMounts cc)
              [captainNetworkName cc]]"
proof -
  have f: "\<not> dfaults sw (dclock sw)" "\<not> dfaults sw (Suc (dclock sw))"
    "\<not> dfaults sw (Suc (Suc (dclock sw)))" "\<not> dfaults sw (Suc (Suc (Suc (dclock sw))))"
    "\<not> dfaults sw (Suc (Suc (Suc (Suc (dclock sw)))))"
    using assms(3)[rule_format, of 0] assms(3)[rule_format, of 1] assms(3)[rule_format, of 2]
      assms(3)[rule_format, of 3] assms(3)[rule_format, of 4]
    by (simp_all add: eval_nat_numeral)
  show "fst (init_service cc myNodeId sw) = Inr ()"
    using assms(1,2) f by (simp add: swarm_defs)
  show "dcalls (snd (init_service cc myNodeId sw)) = dcalls sw @
           [IsServiceRunningByName (nginxServiceName cc),
            GetNodeIdByServiceName (nginxServiceName cc) 0,
            RemoveServiceByName (nginxServiceName cc),
            CreateServiceOnNodeId (nginxImageName cc) (nginxServiceName cc) (nginxPorts cc)
              myNodeId (30 * 1024 * 1024),
            UpdateService (nginxServiceName cc) (nginxImageName cc) (nginxMounts cc)
              [captainNetworkName cc]]"
    using assms(1,2) f by (simp add: swarm_defs)
qed

text \<open>
  C9. When the service runs on a node other than \<open>myNodeId\<close> and no call fails, \<open>init\<close> asks
  whether it runs and where, removes it, creates it on \<open>myNodeId\<close> and updates it, in this
  order. Every run of \<open>init_service\<close> that succeeds, whichever branch it took, ends with
  the call of \<^verbatim>\<open>updateService\<close> with the six mounts and leaves the service on \<open>myNodeId\<close>.
\<close>

theorem init_moves_then_updates:
  "(services sw (nginxServiceName cc) = Some nodeA \<and> nodeA \<noteq> myNodeId \<and>
    (\<forall>k<5. \<not> dfaults sw (dclock sw + k)) \<longrightarrow>
      fst (init_service cc myNodeId sw) = Inr () \<and>
      dcalls (snd (init_service cc myNodeId sw)) = dcalls sw @
        [IsServiceRunningByName (nginxServiceName cc),
         GetNodeIdByServiceName (nginxServiceName cc) 0,
         RemoveServiceByName (nginxServiceName cc),
         CreateServiceOnNodeId (nginxImageName cc) (nginxServiceName cc) (nginxPorts cc)
           myNodeId (30 * 1024 * 1024),
         UpdateService (nginxServiceName cc) (nginxImageName cc) (nginxMounts cc)
           [captainNetworkName cc]]) \<and>
   (init_service cc myNodeId sw = (Inr u, sw') \<longrightarrow>
      dcalls sw' \<noteq> [] \<and>
      last (dcalls sw') =
        UpdateService (nginxServiceName cc) (nginxImageName cc) (nginxMounts cc)
          [captainNetworkName cc] \<and>
      services sw' (nginxServiceName cc) = Some myNodeId) \<and>
   map containerPath (nginxMounts cc) =
     [nginxStaticRootDir cc, ''/etc/nginx/fake-certs'', ''/etc/nginx/nginx.conf'',
      ''/etc/nginx/conf.d'', letsEncryptEtcPathOnNginx cc, nginxSharedPathOnNginx cc] \<and>
   map hostPath (nginxMounts cc) =
     [captainStaticFilesDir cc,
      captainRootDirectoryGenerated cc @ ''/nginx/fake-certs-self-signed'',
      baseNginxConfigPath cc, perAppNginxConfigPathBase cc, letsEncryptEtcPath cc,
      nginxSharedPathOnHost cc]"
proof (intro conjI impI)
  assume a: "services sw (nginxServiceName cc) = Some nodeA \<and> nodeA \<noteq> myNodeId \<and>
    (\<forall>k<5. \<not> dfaults sw (dclock sw + k))"
  then have a1: "services sw (nginxServiceName cc) = Some nodeA" and a2: "nodeA \<noteq> myNodeId"
    and a3: "\<forall>k<5. \<not> dfaults sw (dclock sw + k)" by simp_all
  show "fst (init_service cc myNodeId sw) = Inr ()"
    by (rule init_service_migrates(1)[OF a1 a2 a3])
  show "dcalls (snd (init_service cc myNodeId sw)) = dcalls sw @
        [IsServiceRunningByName (nginxServiceName cc),
         GetNodeIdByServiceName (nginxServiceName cc) 0,
         RemoveServiceByName (nginxServiceName cc),
         CreateServiceOnNodeId (nginxImageName cc) (nginxServiceName cc) (nginxPorts cc)
           myNodeId (30 * 1024 * 1024),
         UpdateService (nginxServiceName cc) (nginxImageName cc) (nginxMounts cc)
           [captainNetworkName cc]]"
    by (rule init_service_migrates(2)[OF a1 a2 a3])
next
  assume b: "init_service cc myNodeId sw = (Inr u, sw')"
  show "dcalls sw' \<noteq> []" by (rule init_service_ends_with_update(1)[OF b])
  show "last (dcalls sw') =
        UpdateService (nginxServiceName cc) (nginxImageName cc) (nginxMounts cc)
          [captainNetworkName cc]" by (rule init_service_ends_with_update(2)[OF b])
  show "services sw' (nginxServiceName cc) = Some myNodeId"
    by (rule init_service_ends_with_update(3)[OF b])
next
  show "map containerPath (nginxMounts cc) =
     [nginxStaticRootDir cc, ''/etc/nginx/fake-certs'', ''/etc/nginx/nginx.conf'',
      ''/etc/nginx/conf.d'', letsEncryptEtcPathOnNginx cc, nginxSharedPathOnNginx cc]"
    by (simp add: nginxMounts_def NGINX_CONTAINER_PATH_OF_FAKE_CERTS_def
        CONTAINER_PATH_OF_CONFIG_def)
  show "map hostPath (nginxMounts cc) =
     [captainStaticFilesDir cc,
      captainRootDirectoryGenerated cc @ ''/nginx/fake-certs-self-signed'',
      baseNginxConfigPath cc, perAppNginxConfigPathBase cc, letsEncryptEtcPath cc,
      nginxSharedPathOnHost cc]"
    by (simp add: nginxMounts_def HOST_PATH_OF_FAKE_CERTS_def)
qed

text \<open>The service on another node, and the service not running.\<close>

theorem init_moves_witness:
  "dcalls (snd (init_service exampleConstants ''node-b'' (exampleSwarm (Some ''node-a''))))
     = [IsServiceRunningByName ''captain-nginx'',
        GetNodeIdByServiceName ''captain-nginx'' 0,
        RemoveServiceByName ''captain-nginx'',
        CreateServiceOnNodeId ''nginx'' ''captain-nginx'' (nginxPorts exampleConstants)
          ''node-b'' (30 * 1024 * 1024),
        UpdateService ''captain-nginx'' ''nginx'' (nginxMounts exampleConstants)
          [''captain-overlay-network'']] \<and>
   services (snd (init_service exampleConstants ''node-b'' (exampleSwarm (Some ''node-a''))))
     ''captain-nginx'' = Some ''node-b'' \<and>
   last (dcalls (snd (init_service exampleConstants ''node-b'' (exampleSwarm None))))
     = UpdateService ''captain-nginx'' ''nginx'' (nginxMounts exampleConstants)
         [''captain-overlay-network''] \<and>
   services (snd (init_service exampleConstants ''node-b'' (exampleSwarm None)))
     ''captain-nginx'' = Some ''node-b''"
proof -
  let ?sw = "exampleSwarm (Some ''node-a'')"
  let ?I = "init_service exampleConstants ''node-b'' ?sw"
  let ?J = "init_service exampleConstants ''node-b'' (exampleSwarm None)"
  have a: "services ?sw (nginxServiceName exampleConstants) = Some ''node-a'' \<and>
           ''node-a'' \<noteq> ''node-b'' \<and> (\<forall>k<5. \<not> dfaults ?sw (dclock ?sw + k))"
    by (simp add: exampleSwarm_def exampleConstants_def)
  note t1 = init_moves_then_updates [of ?sw exampleConstants "''node-a''" "''node-b''",
      THEN conjunct1, rule_format, OF a]
  have b: "?I = (Inr (), snd ?I)"
    using t1 by (simp add: prod_eq_iff)
  note t2 = init_moves_then_updates [of ?sw exampleConstants _ "''node-b''" "()" "snd ?I",
      THEN conjunct2, THEN conjunct1, rule_format, OF b]
  have "fst ?J = Inr ()"
    by (simp add: swarm_defs exampleSwarm_def exampleConstants_def)
  then have c: "?J = (Inr (), snd ?J)"
    by (simp add: prod_eq_iff)
  note t3 = init_moves_then_updates [of "exampleSwarm None" exampleConstants _ "''node-b''" "()"
      "snd ?J", THEN conjunct2, THEN conjunct1, rule_format, OF c]
  show ?thesis
    using t1 t2 t3 by (simp add: exampleSwarm_def exampleConstants_def)
qed

subsection \<open>The status of the proxy\<close>

lemma field_Some:
  "field lines i j = Some n \<longleftrightarrow>
     i < length lines \<and> j < length (split CHR '' '' (lines ! i)) \<and>
     n = Number (trim (split CHR '' '' (lines ! i) ! j))"
  by (auto simp: field_def at_def split: option.splits if_splits)

lemma bind_Some: "Option.bind m f = Some y \<longleftrightarrow> (\<exists>x. m = Some x \<and> f x = Some y)"
  by (cases m) auto

lemma parseStatus_Some:
  "parseStatus body = Some d \<longleftrightarrow>
     (let lines = split (CHR 0x0A) body;
          piece = (\<lambda>i j. Number (trim (split CHR '' '' (lines ! i) ! j)))
      in 3 < length lines \<and>
         2 < length (split CHR '' '' (lines ! 0)) \<and>
         3 < length (split CHR '' '' (lines ! 2)) \<and>
         5 < length (split CHR '' '' (lines ! 3)) \<and>
         d = \<lparr> activeConnections = piece 0 2, accepted = piece 2 1, handled = piece 2 2,
               total = piece 2 3, reading = piece 3 1, writing = piece 3 3,
               waiting = piece 3 5 \<rparr>)"
  unfolding parseStatus_def Let_def bind_Some field_Some
  by auto

text \<open>
  C3, as the code has it. The body is parsed as \<^verbatim>\<open>nginx\<close> prints it, with a space before the
  three counters of the third line: the pieces 1, 2 and 3 of that line are read. An
  error, a missing body or an empty body is rejected. Any other body is resolved exactly
  when it has a fourth line, the first line has a third piece, the third line a fourth
  piece and the fourth line a sixth piece, and then all seven fields are set, each to
  the number its piece spells.
\<close>

theorem status_parse:
  "getInfo False
     (Some (''Active connections: 3'' @ [CHR 0x0A] @ ''server accepts handled requests''
            @ [CHR 0x0A] @ '' 10 10 15'' @ [CHR 0x0A] @ ''Reading: 1 Writing: 2 Waiting: 0''))
     = Inr \<lparr> activeConnections = Integer 3, accepted = Integer 10, handled = Integer 10,
             total = Integer 15, reading = Integer 1, writing = Integer 2,
             waiting = Integer 0 \<rparr> \<and>
   getInfo True body = Inl RequestToNginxFailed \<and>
   getInfo e None = Inl RequestToNginxFailed \<and>
   getInfo e (Some []) = Inl RequestToNginxFailed \<and>
   (getInfo e (Some b) = Inr d \<longleftrightarrow>
      (let lines = split (CHR 0x0A) b;
           piece = (\<lambda>i j. Number (trim (split CHR '' '' (lines ! i) ! j)))
       in \<not> e \<and> b \<noteq> [] \<and>
          3 < length lines \<and>
          2 < length (split CHR '' '' (lines ! 0)) \<and>
          3 < length (split CHR '' '' (lines ! 2)) \<and>
          5 < length (split CHR '' '' (lines ! 3)) \<and>
          d = \<lparr> activeConnections = piece 0 2, accepted = piece 2 1, handled = piece 2 2,
                total = piece 2 3, reading = piece 3 1, writing = piece 3 3,
                waiting = piece 3 5 \<rparr>))"
proof (intro conjI)
  show "getInfo False
     (Some (''Active connections: 3'' @ [CHR 0x0A] @ ''server accepts handled requests''
            @ [CHR 0x0A] @ '' 10 10 15'' @ [CHR 0x0A] @ ''Reading: 1 Writing: 2 Waiting: 0''))
     = Inr \<lparr> activeConnections = Integer 3, accepted = Integer 10, handled = Integer 10,
             total = Integer 15, reading = Integer 1, writing = Integer 2,
             waiting = Integer 0 \<rparr>"
    by (simp add: status_defs)
  show "getInfo True body = Inl RequestToNginxFailed"
    by (simp add: getInfo_def split: option.splits)
  show "getInfo e None = Inl RequestToNginxFailed"
    by (simp add: getInfo_def)
  show "getInfo e (Some []) = Inl RequestToNginxFailed"
    by (simp add: getInfo_def)
  show "getInfo e (Some b) = Inr d \<longleftrightarrow>
      (let lines = split (CHR 0x0A) b;
           piece = (\<lambda>i j. Number (trim (split CHR '' '' (lines ! i) ! j)))
       in \<not> e \<and> b \<noteq> [] \<and>
          3 < length lines \<and>
          2 < length (split CHR '' '' (lines ! 0)) \<and>
          3 < length (split CHR '' '' (lines ! 2)) \<and>
          5 < length (split CHR '' '' (lines ! 3)) \<and>
          d = \<lparr> activeConnections = piece 0 2, accepted = piece 2 1, handled = piece 2 2,
                total = piece 2 3, reading = piece 3 1, writing = piece 3 3,
                waiting = piece 3 5 \<rparr>)"
  proof (cases "e \<or> b = []")
    case True
    then show ?thesis by (auto simp: getInfo_def Let_def)
  next
    case False
    then have "getInfo e (Some b) = Inr d \<longleftrightarrow> parseStatus b = Some d"
      by (auto simp: getInfo_def split: option.splits)
    then show ?thesis
      using False unfolding parseStatus_Some by (simp add: Let_def)
  qed
qed

text \<open>
  The claim as written fails on its own body: without the leading space the third line
  has three pieces, the fourth is missing and the promise is rejected.
\<close>

theorem status_parse_counterexample:
  "getInfo False
     (Some (''Active connections: 3'' @ [CHR 0x0A] @ ''server accepts handled requests''
            @ [CHR 0x0A] @ ''10 10 15'' @ [CHR 0x0A] @ ''Reading: 1 Writing: 2 Waiting: 0''))
     = Inl ParserFailed"
  by (simp add: status_defs)

end
